theory Spec2Isabelle
  imports Complex_Main "HOL-Library.Multiset" "HOL-Library.Sublist"
    "HOL-Library.List_Lexorder" "HOL-Library.Product_Lexorder"
begin

section \<open>The trip assignment engine (fast-assignment module)\<close>

text \<open>
  A shallow embedding of the deterministic trip-to-driver assignment function
  \<^verbatim>\<open>assignTripsToDrivers\<close> and of its helpers \<^verbatim>\<open>parseTime\<close>,
  \<^verbatim>\<open>getEffectiveDayOfWeek\<close>, \<^verbatim>\<open>getTimestamp\<close> and
  \<^verbatim>\<open>timestampsTooClose\<close>.

  Conventions of the embedding.
  \<^item> A JavaScript string is a \<open>string\<close>; a character stands for one code unit.
  \<^item> A time value (the number inside a \<^verbatim>\<open>Date\<close>, or a timestamp returned by
    \<^verbatim>\<open>getTime\<close>) is an \<open>int option\<close>: \<open>Some t\<close> is \<open>t\<close> milliseconds since the epoch,
    \<open>None\<close> is \<^verbatim>\<open>NaN\<close> (an Invalid Date).
  \<^item> \<^verbatim>\<open>priority\<close>, \<^verbatim>\<open>dayOfWeek\<close> and the counters are integers; \<^verbatim>\<open>priority\<close> may be
    absent (\<open>None\<close>), which the source reads as 2 through \<^verbatim>\<open>?? 2\<close>.
  \<^item> A thrown exception is a value \<open>Inl e\<close> of the result type \<open>error + 'a\<close>.
  \<^item> \<^verbatim>\<open>String.prototype.localeCompare\<close> is supplied by the host and depends on its
    collation; it is the parameter \<open>lc\<close> of every function that reaches it.
\<close>

subsection \<open>Data\<close>

type_synonym timeval = "int option"

record trip =
  t_id :: string
  t_tripId :: string
  t_tripDate :: timeval
  t_dayOfWeek :: int
  t_plannedArrivalTime :: "string option"

text \<open>\<^verbatim>\<open>availability: { dayOfWeek: number }[]\<close> is the list of its \<^verbatim>\<open>dayOfWeek\<close> fields.\<close>

record driver =
  d_id :: string
  d_name :: string
  d_priority :: "int option"
  d_availability :: "int list"

record assignment =
  a_tripId :: string
  a_driverId :: string
  a_reasoning :: string

record driverDistribution =
  driverId :: string
  driverName :: string
  tripCount :: nat

record stats =
  totalTrips :: int
  assignedCount :: int
  unassignedCount :: int

record assignmentResult =
  assignments :: "assignment list"
  warnings :: "string list"
  summary :: string
  distribution :: "driverDistribution list"
  stats :: stats

record existingAssignment =
  e_driverId :: string
  e_tripDate :: timeval
  e_plannedArrivalTime :: "string option"

record parsedTime =
  hours :: int
  minutes :: int

datatype error = RangeError | TypeError

definition MIN_HOURS_BETWEEN_TRIPS :: rat where
  "MIN_HOURS_BETWEEN_TRIPS = 3"

definition NIGHT_SHIFT_CUTOFF_HOUR :: int where
  "NIGHT_SHIFT_CUTOFF_HOUR = 5"

definition DAY_NAMES :: "string list" where
  "DAY_NAMES = [''Sunday'', ''Monday'', ''Tuesday'', ''Wednesday'', ''Thursday'', ''Friday'',
                ''Saturday'']"

text \<open>\<^verbatim>\<open>DAY_NAMES[i]\<close> inside a template literal: an index outside the array reads
  \<^verbatim>\<open>undefined\<close>, which the template prints as the word.\<close>

definition dayName :: "int \<Rightarrow> string" where
  "dayName i = (if 0 \<le> i \<and> i < 7 then DAY_NAMES ! nat i else ''undefined'')"

subsection \<open>Host functions of the language\<close>

text \<open>Decimal printing of a length inside a template literal.\<close>

fun showNat :: "nat \<Rightarrow> string" where
  "showNat n = (if n < 10 then [''0123456789'' ! n]
                else showNat (n div 10) @ [''0123456789'' ! (n mod 10)])"

declare showNat.simps [simp del]

text \<open>\<^verbatim>\<open>s.split(c)\<close> for a separator of one character.\<close>

fun splitOn :: "char \<Rightarrow> string \<Rightarrow> string list" where
  "splitOn c [] = [[]]"
| "splitOn c (x # xs) =
     (if x = c then [] # splitOn c xs
      else (case splitOn c xs of [] \<Rightarrow> [[x]] | p # ps \<Rightarrow> (x # p) # ps))"

text \<open>
  \<^verbatim>\<open>parseInt(s, 10)\<close>: leading white space is skipped, one sign is read, then the longest
  run of decimal digits; what follows the digits is ignored; no digit at all gives
  \<^verbatim>\<open>NaN\<close> (\<open>None\<close>). The result is kept exact; the source only compares it with 0, 23
  and 59, where the rounding of a very long digit string to a double changes nothing.
  White space is the part of the language's \<^verbatim>\<open>StrWhiteSpaceChar\<close> that fits a character
  of this model: TAB, LF, VT, FF, CR, SP and NBSP.
\<close>

definition isWhiteSpace :: "char \<Rightarrow> bool" where
  "isWhiteSpace c \<longleftrightarrow> c \<in> set [CHR 0x09, CHR 0x0A, CHR 0x0B, CHR 0x0C, CHR 0x0D, CHR 0x20, CHR 0xA0]"

definition isDigit :: "char \<Rightarrow> bool" where
  "isDigit c \<longleftrightarrow> c \<in> set ''0123456789''"

definition digitVal :: "char \<Rightarrow> int" where
  "digitVal c = int (of_char c) - 48"

definition parseInt :: "string \<Rightarrow> int option" where
  "parseInt s =
     (let s1 = dropWhile isWhiteSpace s;
          sign = (if s1 \<noteq> [] \<and> hd s1 = CHR ''-'' then - 1 else 1);
          s2 = (if s1 \<noteq> [] \<and> (hd s1 = CHR ''+'' \<or> hd s1 = CHR ''-'') then tl s1 else s1);
          z = takeWhile isDigit s2
      in if z = [] then None
         else Some (sign * foldl (\<lambda>acc c. 10 * acc + digitVal c) 0 z))"

text \<open>
  The date arithmetic of the language: \<^verbatim>\<open>Day\<close>, \<^verbatim>\<open>MakeTime\<close>, \<^verbatim>\<open>MakeDate\<close>,
  \<^verbatim>\<open>TimeClip\<close>, and \<^verbatim>\<open>Date.prototype.setUTCHours\<close> built from them.
\<close>

definition msPerDay :: int where
  "msPerDay = 86400000"

definition Day :: "int \<Rightarrow> int" where
  "Day t = t div msPerDay"

definition MakeTime :: "int \<Rightarrow> int \<Rightarrow> int \<Rightarrow> int \<Rightarrow> int" where
  "MakeTime h m s milli = h * 3600000 + m * 60000 + s * 1000 + milli"

definition MakeDate :: "int \<Rightarrow> int \<Rightarrow> int" where
  "MakeDate day time = day * msPerDay + time"

definition TimeClip :: "int \<Rightarrow> timeval" where
  "TimeClip t = (if \<bar>t\<bar> > 8640000000000000 then None else Some t)"

definition setUTCHours :: "timeval \<Rightarrow> int \<Rightarrow> int \<Rightarrow> int \<Rightarrow> int \<Rightarrow> timeval" where
  "setUTCHours d h m s milli =
     (case d of None \<Rightarrow> None
      | Some t \<Rightarrow> TimeClip (MakeDate (Day t) (MakeTime h m s milli)))"

text \<open>
  The calendar date of a day number (days since 1970-01-01) in the proleptic Gregorian
  calendar, as \<^verbatim>\<open>YearFromTime\<close>, \<^verbatim>\<open>MonthFromTime\<close> and \<^verbatim>\<open>DateFromTime\<close> give it,
  computed era by era (an era is 400 years, 146097 days, and starts on a 1st of March).
\<close>

definition civilFromDays :: "int \<Rightarrow> int \<times> int \<times> int" where
  "civilFromDays z0 =
     (let z = z0 + 719468;
          era = z div 146097;
          doe = z - era * 146097;
          yoe = (doe - doe div 1460 + doe div 36524 - doe div 146096) div 365;
          doy = doe - (365 * yoe + yoe div 4 - yoe div 100);
          mp = (5 * doy + 2) div 153;
          d = doy - (153 * mp + 2) div 5 + 1;
          m = (if mp < 10 then mp + 3 else mp - 9);
          y = yoe + era * 400 + (if m \<le> 2 then 1 else 0)
      in (y, m, d))"

definition padNat :: "nat \<Rightarrow> nat \<Rightarrow> string" where
  "padNat w n = replicate (w - length (showNat n)) CHR ''0'' @ showNat n"

text \<open>
  \<^verbatim>\<open>date.toISOString().split("T")[0]\<close>: the part of the ISO string before the
  \<^verbatim>\<open>T\<close>. \<^verbatim>\<open>toISOString\<close> throws a \<^verbatim>\<open>RangeError\<close> on an Invalid Date. A year
  outside 0..9999 is printed with a sign and six digits.
\<close>

definition isoDatePart :: "timeval \<Rightarrow> error + string" where
  "isoDatePart d =
     (case d of None \<Rightarrow> Inl RangeError
      | Some t \<Rightarrow>
          (case civilFromDays (Day t) of (y, m, dd) \<Rightarrow>
             Inr ((if 0 \<le> y \<and> y \<le> 9999 then padNat 4 (nat y)
                   else (if y < 0 then ''-'' else ''+'') @ padNat 6 (nat \<bar>y\<bar>))
                  @ ''-'' @ padNat 2 (nat m) @ ''-'' @ padNat 2 (nat dd))))"

text \<open>
  \<^verbatim>\<open>Array.prototype.sort\<close> with a comparison function is stable; for a consistent
  comparison function every stable sort returns the same list, here by insertion.
\<close>

fun insertBy :: "('a \<Rightarrow> 'a \<Rightarrow> int) \<Rightarrow> 'a \<Rightarrow> 'a list \<Rightarrow> 'a list" where
  "insertBy cmp x [] = [x]"
| "insertBy cmp x (y # ys) = (if cmp x y \<le> 0 then x # y # ys else y # insertBy cmp x ys)"

definition sortBy :: "('a \<Rightarrow> 'a \<Rightarrow> int) \<Rightarrow> 'a list \<Rightarrow> 'a list" where
  "sortBy cmp xs = foldr (insertBy cmp) xs []"

text \<open>\<^verbatim>\<open>Array.prototype.reduce\<close> without an initial value throws a \<^verbatim>\<open>TypeError\<close>
  on an empty array and starts from the first element otherwise.\<close>

definition reduce :: "('a \<Rightarrow> 'a \<Rightarrow> 'a) \<Rightarrow> 'a list \<Rightarrow> error + 'a" where
  "reduce f xs = (case xs of [] \<Rightarrow> Inl TypeError | x # rest \<Rightarrow> Inr (foldl f x rest))"

subsection \<open>The helpers of the module\<close>

definition parseTime :: "string option \<Rightarrow> parsedTime option" where
  "parseTime time =
     (case time of None \<Rightarrow> None
      | Some s \<Rightarrow>
          if s = [] then None
          else let parts = splitOn CHR '':'' s in
            if length parts \<noteq> 2 then None
            else (case parseInt (parts ! 0) of None \<Rightarrow> None
                  | Some h \<Rightarrow>
                      (case parseInt (parts ! 1) of None \<Rightarrow> None
                       | Some m \<Rightarrow>
                           if h < 0 \<or> h > 23 then None
                           else if m < 0 \<or> m > 59 then None
                           else Some \<lparr>hours = h, minutes = m\<rparr>)))"

definition getEffectiveDayOfWeek :: "int \<Rightarrow> string option \<Rightarrow> int" where
  "getEffectiveDayOfWeek dayOfWeek time =
     (case parseTime time of None \<Rightarrow> dayOfWeek
      | Some parsed \<Rightarrow>
          if hours parsed \<ge> NIGHT_SHIFT_CUTOFF_HOUR then dayOfWeek
          else if dayOfWeek = 0 then 6 else dayOfWeek - 1)"

definition getTimestamp :: "timeval \<Rightarrow> string option \<Rightarrow> timeval" where
  "getTimestamp date time =
     (case parseTime time of
        Some parsed \<Rightarrow> setUTCHours date (hours parsed) (minutes parsed) 0 0
      | None \<Rightarrow> setUTCHours date 0 0 0 0)"

text \<open>Every comparison with \<^verbatim>\<open>NaN\<close> is false, so an undefined timestamp is close to none.\<close>

definition timestampsTooClose :: "timeval \<Rightarrow> timeval \<Rightarrow> bool" where
  "timestampsTooClose ts1 ts2 =
     (case ts1 of None \<Rightarrow> False
      | Some a \<Rightarrow>
          (case ts2 of None \<Rightarrow> False
           | Some b \<Rightarrow>
               (let diffMs = \<bar>a - b\<bar>;
                    diffHours = (of_int diffMs :: rat) / (1000 * 60 * 60)
                in diffHours < MIN_HOURS_BETWEEN_TRIPS)))"

subsection \<open>The state of one run\<close>

text \<open>
  The two maps the function keeps, and the two lists it fills. \<^verbatim>\<open>driverLoad\<close> is only
  ever read as \<^verbatim>\<open>driverLoad.get(id) || 0\<close> or \<^verbatim>\<open>driverLoad.get(id)! + 1\<close>; the
  second gives \<^verbatim>\<open>NaN\<close> on a missing key, and both readings treat a stored \<^verbatim>\<open>NaN\<close>
  as they treat a missing key, so the model leaves the key missing there.
\<close>

record loopState =
  driverLoad :: "string \<rightharpoonup> nat"
  driverTimestamps :: "string \<rightharpoonup> timeval list"
  st_assignments :: "assignment list"
  st_warnings :: "string list"

definition loadOf :: "(string \<rightharpoonup> nat) \<Rightarrow> string \<Rightarrow> nat" where
  "loadOf m k = (case m k of None \<Rightarrow> 0 | Some n \<Rightarrow> n)"

definition timestampsOf :: "(string \<rightharpoonup> timeval list) \<Rightarrow> string \<Rightarrow> timeval list" where
  "timestampsOf m k = (case m k of None \<Rightarrow> [] | Some l \<Rightarrow> l)"

definition initDrivers :: "driver list \<Rightarrow> loopState" where
  "initDrivers drivers =
     foldl (\<lambda>st driver.
              st\<lparr>driverLoad := (driverLoad st)(d_id driver \<mapsto> 0),
                 driverTimestamps := (driverTimestamps st)(d_id driver \<mapsto> [])\<rparr>)
       \<lparr>driverLoad = Map.empty, driverTimestamps = Map.empty,
        st_assignments = [], st_warnings = []\<rparr> drivers"

definition addExisting :: "loopState \<Rightarrow> existingAssignment \<Rightarrow> loopState" where
  "addExisting st existing =
     (case driverTimestamps st (e_driverId existing) of
        None \<Rightarrow> st
      | Some timestamps \<Rightarrow>
          st\<lparr>driverTimestamps := (driverTimestamps st)(e_driverId existing \<mapsto>
                 timestamps @ [getTimestamp (e_tripDate existing) (e_plannedArrivalTime existing)]),
             driverLoad := (driverLoad st)(e_driverId existing \<mapsto>
                 loadOf (driverLoad st) (e_driverId existing) + 1)\<rparr>)"

definition initState :: "driver list \<Rightarrow> existingAssignment list \<Rightarrow> loopState" where
  "initState drivers existingAssignments =
     foldl addExisting (initDrivers drivers) existingAssignments"

subsection \<open>Drivers by day, and the choice among the candidates\<close>

definition priorityOf :: "driver \<Rightarrow> int" where
  "priorityOf d = (case d_priority d of None \<Rightarrow> 2 | Some p \<Rightarrow> p)"

definition compareDrivers :: "(string \<Rightarrow> string \<Rightarrow> int) \<Rightarrow> driver \<Rightarrow> driver \<Rightarrow> int" where
  "compareDrivers lc a b =
     (let priorityDiff = priorityOf a - priorityOf b
      in if priorityDiff \<noteq> 0 then priorityDiff else lc (d_name a) (d_name b))"

definition driversByDay ::
  "(string \<Rightarrow> string \<Rightarrow> int) \<Rightarrow> driver list \<Rightarrow> (int \<rightharpoonup> driver list)" where
  "driversByDay lc drivers =
     (\<lambda>day. if 0 \<le> day \<and> day < 7
            then Some (sortBy (compareDrivers lc)
                         (filter (\<lambda>d. list_ex (\<lambda>a. a = day) (d_availability d)) drivers))
            else None)"

definition dayDriversOf :: "(int \<rightharpoonup> driver list) \<Rightarrow> int \<Rightarrow> driver list" where
  "dayDriversOf byDay effectiveDay = (case byDay effectiveDay of None \<Rightarrow> [] | Some ds \<Rightarrow> ds)"

definition availableDriversOf :: "loopState \<Rightarrow> driver list \<Rightarrow> timeval \<Rightarrow> driver list" where
  "availableDriversOf st dayDrivers tripTimestamp =
     filter (\<lambda>driver.
               let assignedTimestamps = timestampsOf (driverTimestamps st) (d_id driver);
                   hasConflict = list_ex (\<lambda>assignedTs. timestampsTooClose assignedTs tripTimestamp)
                                   assignedTimestamps
               in \<not> hasConflict) dayDrivers"

definition pickDriver ::
  "(string \<Rightarrow> string \<Rightarrow> int) \<Rightarrow> (string \<rightharpoonup> nat) \<Rightarrow> driver \<Rightarrow> driver \<Rightarrow> driver" where
  "pickDriver lc load bestDriver driver =
     (let bestPriority = priorityOf bestDriver;
          currentPriority = priorityOf driver;
          bestLoad = loadOf load (d_id bestDriver);
          currentLoad = loadOf load (d_id driver)
      in if currentPriority < bestPriority then driver
         else if currentPriority > bestPriority then bestDriver
         else if currentLoad < bestLoad then driver
         else if currentLoad > bestLoad then bestDriver
         else if lc (d_name driver) (d_name bestDriver) < 0 then driver else bestDriver)"

subsection \<open>One trip of the loop\<close>

definition noDriverWarning :: "trip \<Rightarrow> int \<Rightarrow> string" where
  "noDriverWarning trip effectiveDay =
     (let effectiveDayName = dayName effectiveDay;
          isNightShift = (effectiveDay \<noteq> t_dayOfWeek trip);
          dayInfo = (if isNightShift
                     then effectiveDayName @ '' (night shift into '' @ dayName (t_dayOfWeek trip) @ '')''
                     else effectiveDayName)
      in ''Trip '' @ t_tripId trip @ '': No driver available on '' @ dayInfo)"

text \<open>\<^verbatim>\<open>trip.plannedArrivalTime || "unknown time"\<close>: null and the empty string are falsy.\<close>

definition conflictWarning :: "trip \<Rightarrow> string \<Rightarrow> string" where
  "conflictWarning trip dateStr =
     (let timeStr = (case t_plannedArrivalTime trip of None \<Rightarrow> ''unknown time''
                     | Some s \<Rightarrow> if s = [] then ''unknown time'' else s)
      in ''Trip '' @ t_tripId trip @ '': All drivers have conflicting trips near '' @ timeStr
           @ '' on '' @ dateStr)"

definition makeAssignment :: "trip \<Rightarrow> int \<Rightarrow> driver \<Rightarrow> assignment" where
  "makeAssignment trip effectiveDay selectedDriver =
     (let priorityLabel = (if d_priority selectedDriver = Some 1 then ''high''
                           else if d_priority selectedDriver = Some 3 then ''low'' else ''med'');
          isNightShift = (effectiveDay \<noteq> t_dayOfWeek trip);
          dayLabel = (if isNightShift then dayName effectiveDay @ '' night''
                      else dayName (t_dayOfWeek trip))
      in \<lparr>a_tripId = t_id trip, a_driverId = d_id selectedDriver,
          a_reasoning = dayLabel @ '' - '' @ d_name selectedDriver @ '' ('' @ priorityLabel
                          @ '' priority)''\<rparr>)"

text \<open>
  The body of \<^verbatim>\<open>for (const trip of trips)\<close>. The three places that can throw are
  \<^verbatim>\<open>toISOString\<close>, \<^verbatim>\<open>reduce\<close> and the \<^verbatim>\<open>push\<close> on
  \<^verbatim>\<open>driverTimestamps.get(selectedDriver.id)!\<close>.
\<close>

definition processTrip ::
  "(string \<Rightarrow> string \<Rightarrow> int) \<Rightarrow> (int \<rightharpoonup> driver list) \<Rightarrow> loopState \<Rightarrow> trip \<Rightarrow> error + loopState" where
  "processTrip lc byDay st trip =
     (let tripTimestamp = getTimestamp (t_tripDate trip) (t_plannedArrivalTime trip);
          effectiveDay = getEffectiveDayOfWeek (t_dayOfWeek trip) (t_plannedArrivalTime trip);
          dayDrivers = dayDriversOf byDay effectiveDay;
          availableDrivers = availableDriversOf st dayDrivers tripTimestamp
      in if length availableDrivers = 0 then
           (if length dayDrivers = 0 then
              Inr (st\<lparr>st_warnings := st_warnings st @ [noDriverWarning trip effectiveDay]\<rparr>)
            else
              (case isoDatePart (t_tripDate trip) of
                 Inl e \<Rightarrow> Inl e
               | Inr dateStr \<Rightarrow>
                   Inr (st\<lparr>st_warnings := st_warnings st @ [conflictWarning trip dateStr]\<rparr>)))
         else
           (case reduce (pickDriver lc (driverLoad st)) availableDrivers of
              Inl e \<Rightarrow> Inl e
            | Inr selectedDriver \<Rightarrow>
                (case driverTimestamps st (d_id selectedDriver) of
                   None \<Rightarrow> Inl TypeError
                 | Some timestamps \<Rightarrow>
                     Inr (st\<lparr>st_assignments :=
                               st_assignments st @ [makeAssignment trip effectiveDay selectedDriver],
                             driverTimestamps :=
                               (driverTimestamps st)(d_id selectedDriver \<mapsto> timestamps @ [tripTimestamp]),
                             driverLoad :=
                               (case driverLoad st (d_id selectedDriver) of
                                  None \<Rightarrow> driverLoad st
                                | Some n \<Rightarrow> (driverLoad st)(d_id selectedDriver \<mapsto> n + 1))\<rparr>))))"

fun assignLoop ::
  "(string \<Rightarrow> string \<Rightarrow> int) \<Rightarrow> (int \<rightharpoonup> driver list) \<Rightarrow> loopState \<Rightarrow> trip list \<Rightarrow> error + loopState" where
  "assignLoop lc byDay st [] = Inr st"
| "assignLoop lc byDay st (trip # rest) =
     (case processTrip lc byDay st trip of
        Inl e \<Rightarrow> Inl e
      | Inr st' \<Rightarrow> assignLoop lc byDay st' rest)"

subsection \<open>The main function\<close>

definition buildDistribution :: "(string \<rightharpoonup> nat) \<Rightarrow> driver list \<Rightarrow> driverDistribution list" where
  "buildDistribution load drivers =
     sortBy (\<lambda>a b. int (tripCount b) - int (tripCount a))
       (filter (\<lambda>d. tripCount d > 0)
          (map (\<lambda>d. \<lparr>driverId = d_id d, driverName = d_name d, tripCount = loadOf load (d_id d)\<rparr>)
             drivers))"

definition assignTripsToDrivers ::
  "(string \<Rightarrow> string \<Rightarrow> int) \<Rightarrow> trip list \<Rightarrow> driver list \<Rightarrow> existingAssignment list
     \<Rightarrow> error + assignmentResult" where
  "assignTripsToDrivers lc trips drivers existingAssignments =
     (if length trips = 0 then
        Inr \<lparr>assignments = [], warnings = [], summary = ''No trips to assign'',
             distribution = [],
             stats = \<lparr>totalTrips = 0, assignedCount = 0, unassignedCount = 0\<rparr>\<rparr>
      else if length drivers = 0 then
        Inr \<lparr>assignments = [], warnings = [''No active drivers available''],
             summary = ''Assignment failed: No drivers'', distribution = [],
             stats = \<lparr>totalTrips = int (length trips), assignedCount = 0,
                      unassignedCount = int (length trips)\<rparr>\<rparr>
      else
        (case assignLoop lc (driversByDay lc drivers) (initState drivers existingAssignments) trips of
           Inl e \<Rightarrow> Inl e
         | Inr st \<Rightarrow>
             (let unassignedCount = int (length trips) - int (length (st_assignments st))
              in Inr \<lparr>assignments = st_assignments st, warnings = st_warnings st,
                      summary = ''Assigned '' @ showNat (length (st_assignments st)) @ '' of ''
                                  @ showNat (length trips) @ '' trips'',
                      distribution = buildDistribution (driverLoad st) drivers,
                      stats = \<lparr>totalTrips = int (length trips),
                               assignedCount = int (length (st_assignments st)),
                               unassignedCount = unassignedCount\<rparr>\<rparr>)))"

text \<open>
  One admissible \<^verbatim>\<open>localeCompare\<close>, used where a run is evaluated: comparison code unit
  by code unit, the shorter string first among a string and its extensions.
\<close>

fun codeUnitCompare :: "string \<Rightarrow> string \<Rightarrow> int" where
  "codeUnitCompare [] [] = 0"
| "codeUnitCompare [] (y # ys) = - 1"
| "codeUnitCompare (x # xs) [] = 1"
| "codeUnitCompare (x # xs) (y # ys) =
     (if (of_char x :: nat) < of_char y then - 1
      else if (of_char y :: nat) < of_char x then 1
      else codeUnitCompare xs ys)"

text \<open>
  What the \<^verbatim>\<open>localeCompare\<close> of the common engines does on names made of ASCII
  letters (the root collation of the Unicode Collation Algorithm): the letters decide
  first, whatever their case, so that "alice" comes before "Bob"; between two names with
  the same letters the first difference of case decides, the lower-case letter first.
  The key of a name is its letters folded to lower case, then the case of each letter;
  keys are compared as pairs of lists, each list in dictionary order.
\<close>

definition foldCase :: "char \<Rightarrow> nat" where
  "foldCase c =
     (if 65 \<le> (of_char c :: nat) \<and> (of_char c :: nat) \<le> 90 then of_char c + 32 else of_char c)"

definition caseRank :: "char \<Rightarrow> nat" where
  "caseRank c = (if 65 \<le> (of_char c :: nat) \<and> (of_char c :: nat) \<le> 90 then 1 else 0)"

definition collationKey :: "string \<Rightarrow> nat list \<times> nat list" where
  "collationKey s = (map foldCase s, map caseRank s)"

definition collationCompare :: "string \<Rightarrow> string \<Rightarrow> int" where
  "collationCompare a b =
     (if collationKey a < collationKey b then - 1
      else if collationKey a = collationKey b then 0 else 1)"

subsection \<open>Observing a run\<close>

text \<open>
  Names for what the loop computes for one trip, and for the state it has reached: the
  conflict timestamp and the effective day of a trip, the candidates left after the two
  filters, and the driver the \<^verbatim>\<open>reduce\<close> returns among them (\<open>None\<close> when no
  candidate is left and the trip gets a warning).
\<close>

definition tripTimestampOf :: "trip \<Rightarrow> timeval" where
  "tripTimestampOf trip = getTimestamp (t_tripDate trip) (t_plannedArrivalTime trip)"

definition effectiveDayOf :: "trip \<Rightarrow> int" where
  "effectiveDayOf trip = getEffectiveDayOfWeek (t_dayOfWeek trip) (t_plannedArrivalTime trip)"

definition existingTimestampOf :: "existingAssignment \<Rightarrow> timeval" where
  "existingTimestampOf e = getTimestamp (e_tripDate e) (e_plannedArrivalTime e)"

definition candidatesOf :: "(int \<rightharpoonup> driver list) \<Rightarrow> loopState \<Rightarrow> trip \<Rightarrow> driver list" where
  "candidatesOf byDay st trip =
     availableDriversOf st (dayDriversOf byDay (effectiveDayOf trip)) (tripTimestampOf trip)"

definition chosenDriver ::
  "(string \<Rightarrow> string \<Rightarrow> int) \<Rightarrow> (int \<rightharpoonup> driver list) \<Rightarrow> loopState \<Rightarrow> trip \<Rightarrow> driver option" where
  "chosenDriver lc byDay st trip =
     (case candidatesOf byDay st trip of
        [] \<Rightarrow> None
      | c # cs \<Rightarrow> Some (foldl (pickDriver lc (driverLoad st)) c cs))"

text \<open>The choice made for each trip of the loop, in the order of the trips.\<close>

fun selections ::
  "(string \<Rightarrow> string \<Rightarrow> int) \<Rightarrow> (int \<rightharpoonup> driver list) \<Rightarrow> loopState \<Rightarrow> trip list \<Rightarrow> driver option list" where
  "selections lc byDay st [] = []"
| "selections lc byDay st (t # ts) =
     chosenDriver lc byDay st t #
       (case processTrip lc byDay st t of Inl e \<Rightarrow> [] | Inr st' \<Rightarrow> selections lc byDay st' ts)"

text \<open>The choices of a whole call: without a driver the loop is not entered and no trip
  gets one.\<close>

definition selectionsOf ::
  "(string \<Rightarrow> string \<Rightarrow> int) \<Rightarrow> trip list \<Rightarrow> driver list \<Rightarrow> existingAssignment list
     \<Rightarrow> driver option list" where
  "selectionsOf lc trips drivers existingAssignments =
     (if drivers = [] then replicate (length trips) None
      else selections lc (driversByDay lc drivers) (initState drivers existingAssignments) trips)"

text \<open>
  What a list of choices stands for: the assignment records of the trips that got a
  driver, the trips that got none, and the timestamps that went to the driver id \<open>k\<close>.
\<close>

fun emitted :: "trip list \<Rightarrow> driver option list \<Rightarrow> assignment list" where
  "emitted (t # ts) (Some d # ss) = makeAssignment t (effectiveDayOf t) d # emitted ts ss"
| "emitted (t # ts) (None # ss) = emitted ts ss"
| "emitted _ _ = []"

fun skipped :: "trip list \<Rightarrow> driver option list \<Rightarrow> trip list" where
  "skipped (t # ts) (None # ss) = t # skipped ts ss"
| "skipped (t # ts) (Some d # ss) = skipped ts ss"
| "skipped _ _ = []"

fun stampsFor :: "string \<Rightarrow> trip list \<Rightarrow> driver option list \<Rightarrow> timeval list" where
  "stampsFor k (t # ts) (Some d # ss) =
     (if d_id d = k then tripTimestampOf t # stampsFor k ts ss else stampsFor k ts ss)"
| "stampsFor k (t # ts) (None # ss) = stampsFor k ts ss"
| "stampsFor k _ _ = []"

text \<open>A warning of the loop names its trip: \<^verbatim>\<open>Trip ${trip.tripId}: ...\<close>.\<close>

definition warnsAbout :: "trip \<Rightarrow> string \<Rightarrow> bool" where
  "warnsAbout t w \<longleftrightarrow> (\<exists>rest. w = ''Trip '' @ t_tripId t @ '': '' @ rest)"

text \<open>The state the loop keeps well formed: every driver of a day list is an input driver,
  and every input driver has an entry in both maps.\<close>

definition runInv :: "driver list \<Rightarrow> (int \<rightharpoonup> driver list) \<Rightarrow> loopState \<Rightarrow> bool" where
  "runInv drivers byDay st \<longleftrightarrow>
     (\<forall>day. set (dayDriversOf byDay day) \<subseteq> set drivers) \<and>
     (\<forall>d \<in> set drivers. driverTimestamps st (d_id d) \<noteq> None \<and> driverLoad st (d_id d) \<noteq> None)"

text \<open>Two timestamps the configured three hours apart, or more. An undefined timestamp is
  never closer than that to anything.\<close>

definition farApart :: "timeval \<Rightarrow> timeval \<Rightarrow> bool" where
  "farApart x y =
     (case x of None \<Rightarrow> True
      | Some a \<Rightarrow> (case y of None \<Rightarrow> True | Some b \<Rightarrow> \<bar>a - b\<bar> \<ge> 3 * 3600000))"

text \<open>
  When trip number \<open>i\<close> is processed, the driver id \<open>k\<close> holds the timestamps of its
  pre-existing assignments and of the trips it was given earlier in the run; its workload
  is their number.
\<close>

definition heldBefore ::
  "existingAssignment list \<Rightarrow> trip list \<Rightarrow> driver option list \<Rightarrow> nat \<Rightarrow> string \<Rightarrow> timeval list" where
  "heldBefore ex trips sel i k =
     map existingTimestampOf (filter (\<lambda>e. e_driverId e = k) ex)
       @ stampsFor k (take i trips) (take i sel)"

definition workloadBefore ::
  "existingAssignment list \<Rightarrow> trip list \<Rightarrow> driver option list \<Rightarrow> nat \<Rightarrow> string \<Rightarrow> nat" where
  "workloadBefore ex trips sel i k =
     length (filter (\<lambda>e. e_driverId e = k) ex)
       + length (filter (\<lambda>s. case s of None \<Rightarrow> False | Some d \<Rightarrow> d_id d = k) (take i sel))"

text \<open>A candidate for trip number \<open>i\<close>: an input driver available on the effective day of
  the trip (one of the seven days) who holds no timestamp too close to the trip's.\<close>

definition eligible ::
  "driver list \<Rightarrow> existingAssignment list \<Rightarrow> trip list \<Rightarrow> driver option list \<Rightarrow> nat \<Rightarrow> driver \<Rightarrow> bool" where
  "eligible drivers ex trips sel i d \<longleftrightarrow>
     d \<in> set drivers \<and>
     0 \<le> effectiveDayOf (trips ! i) \<and> effectiveDayOf (trips ! i) < 7 \<and>
     effectiveDayOf (trips ! i) \<in> set (d_availability d) \<and>
     (\<forall>x \<in> set (heldBefore ex trips sel i (d_id d)).
        \<not> timestampsTooClose x (tripTimestampOf (trips ! i)))"

text \<open>
  The order of the selection: priority value first (an absent one counts as 2), then
  workload \<open>w\<close>, then the name under \<open>lc\<close>.
\<close>

definition ranksBefore ::
  "(string \<Rightarrow> string \<Rightarrow> int) \<Rightarrow> (string \<Rightarrow> nat) \<Rightarrow> driver \<Rightarrow> driver \<Rightarrow> bool" where
  "ranksBefore lc w a b \<longleftrightarrow>
     priorityOf a < priorityOf b \<or>
     (priorityOf a = priorityOf b \<and>
        (w (d_id a) < w (d_id b) \<or>
         (w (d_id a) = w (d_id b) \<and> lc (d_name a) (d_name b) \<le> 0)))"

text \<open>What the language asks of a comparison function for \<^verbatim>\<open>sort\<close>, and what a
  collation gives: the sign flips with the arguments, and \<open>\<le>\<close> is transitive.\<close>

definition consistentComparator :: "('a \<Rightarrow> 'a \<Rightarrow> int) \<Rightarrow> bool" where
  "consistentComparator c \<longleftrightarrow>
     (\<forall>a b. (c a b < 0) = (c b a > 0)) \<and> (\<forall>a b d. c a b \<le> 0 \<and> c b d \<le> 0 \<longrightarrow> c a d \<le> 0)"

text \<open>The combined trip count of a driver id: pre-existing assignments plus new ones.\<close>

definition combinedCount :: "existingAssignment list \<Rightarrow> assignment list \<Rightarrow> string \<Rightarrow> nat" where
  "combinedCount ex as k =
     length (filter (\<lambda>e. e_driverId e = k) ex) + length (filter (\<lambda>a. a_driverId a = k) as)"


text \<open>
  Two trips that are the same, or differ only in that the first carries a time string
  that \<^verbatim>\<open>parseTime\<close> rejects where the second carries no time; and two warnings that
  are the same, or are the conflict warning of two such trips, the first quoting the
  rejected string where the second says "unknown time".
\<close>

definition sameButRejectedTime :: "trip \<Rightarrow> trip \<Rightarrow> bool" where
  "sameButRejectedTime t t' \<longleftrightarrow>
     t' = t \<or> (parseTime (t_plannedArrivalTime t) = None \<and> t' = t\<lparr>t_plannedArrivalTime := None\<rparr>)"

definition sameButTimeQuote :: "string \<Rightarrow> string \<Rightarrow> bool" where
  "sameButTimeQuote w w' \<longleftrightarrow>
     w' = w \<or>
     (\<exists>t dateStr. parseTime (t_plannedArrivalTime t) = None \<and>
        w = conflictWarning t dateStr \<and>
        w' = conflictWarning (t\<lparr>t_plannedArrivalTime := None\<rparr>) dateStr)"

definition statesAgree :: "loopState \<Rightarrow> loopState \<Rightarrow> bool" where
  "statesAgree st st' \<longleftrightarrow>
     driverLoad st' = driverLoad st \<and> driverTimestamps st' = driverTimestamps st \<and>
     st_assignments st' = st_assignments st \<and>
     list_all2 sameButTimeQuote (st_warnings st) (st_warnings st')"

subsection \<open>Sample inputs\<close>

text \<open>
  Wednesday 2026-01-14, 00:00 UTC, is 1768348800000 ms after the epoch. Alice has priority 1
  and works on Tuesdays and Wednesdays; Bob has no priority and works on Wednesdays.
\<close>

definition wed14 :: int where
  "wed14 = 1768348800000"

definition alice :: driver where
  "alice = \<lparr>d_id = ''d1'', d_name = ''Alice'', d_priority = Some 1, d_availability = [2, 3]\<rparr>"

definition bob :: driver where
  "bob = \<lparr>d_id = ''d2'', d_name = ''Bob'', d_priority = None, d_availability = [3]\<rparr>"

definition tripAt :: "string \<Rightarrow> string \<Rightarrow> string option \<Rightarrow> trip" where
  "tripAt i label time =
     \<lparr>t_id = i, t_tripId = label, t_tripDate = Some wed14, t_dayOfWeek = 3,
      t_plannedArrivalTime = time\<rparr>"

definition sampleTrips :: "trip list" where
  "sampleTrips =
     [tripAt ''t1'' ''T-1'' (Some ''08:00''), tripAt ''t2'' ''T-2'' (Some ''09:30''),
      tripAt ''t3'' ''T-3'' (Some ''12:00''), tripAt ''t4'' ''T-4'' (Some ''18:00''),
      tripAt ''t5'' ''T-5'' (Some ''00:20'')]"

definition existingAt :: "string \<Rightarrow> string option \<Rightarrow> existingAssignment" where
  "existingAt k time = \<lparr>e_driverId = k, e_tripDate = Some wed14, e_plannedArrivalTime = time\<rparr>"

definition sampleExisting :: "existingAssignment list" where
  "sampleExisting = [existingAt ''d1'' (Some ''03:00''), existingAt ''d9'' (Some ''08:00'')]"

text \<open>Two drivers of the same priority who work on Wednesdays and whose names differ in
  the case of the first letter.\<close>

definition aliceLower :: driver where
  "aliceLower = \<lparr>d_id = ''d1'', d_name = ''alice'', d_priority = Some 2, d_availability = [3]\<rparr>"

definition bobUpper :: driver where
  "bobUpper = \<lparr>d_id = ''d2'', d_name = ''Bob'', d_priority = Some 2, d_availability = [3]\<rparr>"

section \<open>Properties\<close>

subsection \<open>The helpers and the host functions\<close>

lemma tooClose_Some [simp]:
  "timestampsTooClose (Some a) (Some b) \<longleftrightarrow> \<bar>a - b\<bar> < 10800000"
proof -
  have "(of_int \<bar>a - b\<bar> :: rat) / (1000 * 60 * 60) < 3 \<longleftrightarrow> (of_int \<bar>a - b\<bar> :: rat) < 3 * (1000 * 60 * 60)"
    by (simp add: pos_divide_less_eq)
  also have "\<dots> \<longleftrightarrow> (of_int \<bar>a - b\<bar> :: rat) < of_int 10800000" by simp
  also have "\<dots> \<longleftrightarrow> \<bar>a - b\<bar> < 10800000" by (simp only: of_int_less_iff)
  finally show ?thesis
    by (simp add: timestampsTooClose_def MIN_HOURS_BETWEEN_TRIPS_def)
qed

lemma tooClose_None [simp]:
  "\<not> timestampsTooClose None y" "\<not> timestampsTooClose x None"
  by (simp_all add: timestampsTooClose_def split: option.splits)

lemma mset_insertBy: "mset (insertBy cmp x xs) = add_mset x (mset xs)"
  by (induction xs) simp_all

lemma mset_sortBy: "mset (sortBy cmp xs) = mset xs"
  by (induction xs) (simp_all add: sortBy_def mset_insertBy)

lemma set_sortBy: "set (sortBy cmp xs) = set xs"
  using mset_sortBy [of cmp xs] by (metis set_mset_mset)

lemma length_sortBy: "length (sortBy cmp xs) = length xs"
  using mset_sortBy [of cmp xs] by (metis size_mset)

lemma dayDrivers_byDay:
  "d \<in> set (dayDriversOf (driversByDay lc drivers) day) \<longleftrightarrow>
     0 \<le> day \<and> day < 7 \<and> d \<in> set drivers \<and> day \<in> set (d_availability d)"
  by (auto simp: dayDriversOf_def driversByDay_def set_sortBy list_ex_iff)

lemma pickDriver_cases: "pickDriver lc load b d = b \<or> pickDriver lc load b d = d"
  by (simp add: pickDriver_def Let_def)

lemma foldl_pickDriver_mem: "foldl (pickDriver lc load) c cs \<in> set (c # cs)"
proof (induction cs arbitrary: c)
  case Nil
  show ?case by simp
next
  case (Cons x xs)
  from pickDriver_cases [of lc load c x] Cons.IH [of "pickDriver lc load c x"]
  show ?case by auto
qed

lemma getTimestamp_None [simp]: "getTimestamp None time = None"
  by (simp add: getTimestamp_def setUTCHours_def split: option.splits)

lemma candidates_subset:
  "set (candidatesOf byDay st trip) \<subseteq> set (dayDriversOf byDay (effectiveDayOf trip))"
  by (auto simp: candidatesOf_def availableDriversOf_def)


lemma candidates_empty_conflict:
  assumes "candidatesOf byDay st trip = []"
      and "dayDriversOf byDay (effectiveDayOf trip) \<noteq> []"
  shows "\<exists>tv. t_tripDate trip = Some tv"
proof -
  from assms(2) obtain d where d: "d \<in> set (dayDriversOf byDay (effectiveDayOf trip))"
    by (cases "dayDriversOf byDay (effectiveDayOf trip)") auto
  with assms(1) have "d \<notin> set (candidatesOf byDay st trip)" by simp
  with d obtain x where "timestampsTooClose x (tripTimestampOf trip)"
    by (auto simp: candidatesOf_def availableDriversOf_def list_ex_iff)
  then have "tripTimestampOf trip \<noteq> None"
    by (cases "tripTimestampOf trip") auto
  then show ?thesis
    by (cases "t_tripDate trip") (auto simp: tripTimestampOf_def)
qed

lemma initDrivers_fields:
  "driverTimestamps (initDrivers drivers) k = (if k \<in> d_id ` set drivers then Some [] else None)"
  "driverLoad (initDrivers drivers) k = (if k \<in> d_id ` set drivers then Some 0 else None)"
  "st_assignments (initDrivers drivers) = []"
  "st_warnings (initDrivers drivers) = []"
  unfolding initDrivers_def by (induction drivers rule: rev_induct) auto

lemma initState_all:
  "(\<forall>k. driverTimestamps (initState drivers ex) k =
     (if k \<in> d_id ` set drivers
      then Some (map existingTimestampOf (filter (\<lambda>e. e_driverId e = k) ex)) else None)) \<and>
   (\<forall>k. driverLoad (initState drivers ex) k =
     (if k \<in> d_id ` set drivers then Some (length (filter (\<lambda>e. e_driverId e = k) ex)) else None)) \<and>
   st_assignments (initState drivers ex) = [] \<and>
   st_warnings (initState drivers ex) = []"
proof (induction ex rule: rev_induct)
  case Nil
  show ?case by (simp add: initState_def initDrivers_fields)
next
  case (snoc e es)
  have step: "initState drivers (es @ [e]) = addExisting (initState drivers es) e"
    by (simp add: initState_def)
  show ?case
    unfolding step addExisting_def
    by (cases "e_driverId e \<in> d_id ` set drivers")
       (simp_all add: snoc existingTimestampOf_def loadOf_def)
qed

lemmas initState_fields = initState_all [THEN conjunct1, rule_format]
  initState_all [THEN conjunct2, THEN conjunct1, rule_format]
  initState_all [THEN conjunct2, THEN conjunct2, THEN conjunct1]
  initState_all [THEN conjunct2, THEN conjunct2, THEN conjunct2]

lemma chosenDriver_None: "chosenDriver lc byDay st trip = None \<longleftrightarrow> candidatesOf byDay st trip = []"
  by (simp add: chosenDriver_def split: list.splits)

lemma chosenDriver_mem:
  "chosenDriver lc byDay st trip = Some d \<Longrightarrow> d \<in> set (candidatesOf byDay st trip)"
  using foldl_pickDriver_mem
  by (fastforce simp: chosenDriver_def split: list.splits)

lemma processTrip_skip:
  assumes "chosenDriver lc byDay st trip = None"
  shows "\<exists>w. warnsAbout trip w \<and>
           processTrip lc byDay st trip = Inr (st\<lparr>st_warnings := st_warnings st @ [w]\<rparr>)"
proof -
  from assms have c: "candidatesOf byDay st trip = []" by (simp add: chosenDriver_None)
  show ?thesis
  proof (cases "dayDriversOf byDay (effectiveDayOf trip) = []")
    case True
    with c have "processTrip lc byDay st trip =
        Inr (st\<lparr>st_warnings := st_warnings st @ [noDriverWarning trip (effectiveDayOf trip)]\<rparr>)"
      by (simp add: processTrip_def candidatesOf_def effectiveDayOf_def tripTimestampOf_def)
    moreover have "warnsAbout trip (noDriverWarning trip (effectiveDayOf trip))"
      by (simp add: warnsAbout_def noDriverWarning_def Let_def)
    ultimately show ?thesis by blast
  next
    case False
    from candidates_empty_conflict [OF c False] obtain tv where "t_tripDate trip = Some tv" ..
    then have "\<exists>s. isoDatePart (t_tripDate trip) = Inr s"
      by (cases "civilFromDays (Day tv)") (simp add: isoDatePart_def)
    then obtain s where s: "isoDatePart (t_tripDate trip) = Inr s" ..
    with c False have "processTrip lc byDay st trip =
        Inr (st\<lparr>st_warnings := st_warnings st @ [conflictWarning trip s]\<rparr>)"
      by (simp add: processTrip_def candidatesOf_def effectiveDayOf_def tripTimestampOf_def)
    moreover have "warnsAbout trip (conflictWarning trip s)"
      by (simp add: warnsAbout_def conflictWarning_def Let_def)
    ultimately show ?thesis by blast
  qed
qed

lemma processTrip_assign:
  assumes "chosenDriver lc byDay st trip = Some d"
      and "driverTimestamps st (d_id d) = Some l"
      and "driverLoad st (d_id d) = Some n"
  shows "processTrip lc byDay st trip =
           Inr (st\<lparr>st_assignments := st_assignments st @ [makeAssignment trip (effectiveDayOf trip) d],
                   driverTimestamps := (driverTimestamps st)(d_id d \<mapsto> l @ [tripTimestampOf trip]),
                   driverLoad := (driverLoad st)(d_id d \<mapsto> n + 1)\<rparr>)"
proof -
  from assms(1) obtain c cs where c: "candidatesOf byDay st trip = c # cs"
    and d: "d = foldl (pickDriver lc (driverLoad st)) c cs"
    by (auto simp: chosenDriver_def split: list.splits)
  from c have "availableDriversOf st (dayDriversOf byDay
      (getEffectiveDayOfWeek (t_dayOfWeek trip) (t_plannedArrivalTime trip)))
      (getTimestamp (t_tripDate trip) (t_plannedArrivalTime trip)) = c # cs"
    by (simp add: candidatesOf_def effectiveDayOf_def tripTimestampOf_def)
  then show ?thesis
    using assms(2,3) d
    by (simp add: processTrip_def reduce_def effectiveDayOf_def tripTimestampOf_def)
qed

lemma processTrip_step:
  assumes "runInv drivers byDay st"
  shows "\<exists>st'. processTrip lc byDay st trip = Inr st' \<and> runInv drivers byDay st' \<and>
           st_assignments st' = st_assignments st @ emitted [trip] [chosenDriver lc byDay st trip] \<and>
           (\<exists>ws. st_warnings st' = st_warnings st @ ws \<and>
                 list_all2 warnsAbout (skipped [trip] [chosenDriver lc byDay st trip]) ws) \<and>
           (\<forall>k. timestampsOf (driverTimestamps st') k =
                  timestampsOf (driverTimestamps st) k @ stampsFor k [trip] [chosenDriver lc byDay st trip]) \<and>
           (\<forall>k. loadOf (driverLoad st') k =
                  loadOf (driverLoad st) k + length (stampsFor k [trip] [chosenDriver lc byDay st trip]))"
proof (cases "chosenDriver lc byDay st trip")
  case None
  from processTrip_skip [OF None] obtain w where w: "warnsAbout trip w"
    and p: "processTrip lc byDay st trip = Inr (st\<lparr>st_warnings := st_warnings st @ [w]\<rparr>)"
    by blast
  from assms have "runInv drivers byDay (st\<lparr>st_warnings := st_warnings st @ [w]\<rparr>)"
    by (simp add: runInv_def)
  with w p None show ?thesis by simp
next
  case (Some d)
  from chosenDriver_mem [OF Some] candidates_subset assms have dmem: "d \<in> set drivers"
    unfolding runInv_def by blast
  with assms obtain l n where l: "driverTimestamps st (d_id d) = Some l"
    and n: "driverLoad st (d_id d) = Some n"
    unfolding runInv_def by blast
  let ?st' = "st\<lparr>st_assignments := st_assignments st @ [makeAssignment trip (effectiveDayOf trip) d],
                   driverTimestamps := (driverTimestamps st)(d_id d \<mapsto> l @ [tripTimestampOf trip]),
                   driverLoad := (driverLoad st)(d_id d \<mapsto> n + 1)\<rparr>"
  have p: "processTrip lc byDay st trip = Inr ?st'"
    by (rule processTrip_assign [OF Some l n])
  have inv: "runInv drivers byDay ?st'"
    using assms by (simp add: runInv_def)
  have ts: "\<forall>k. timestampsOf (driverTimestamps ?st') k =
                  timestampsOf (driverTimestamps st) k @ stampsFor k [trip] [Some d]"
    using l by (simp add: timestampsOf_def)
  have ld: "\<forall>k. loadOf (driverLoad ?st') k =
                  loadOf (driverLoad st) k + length (stampsFor k [trip] [Some d])"
    using n by (simp add: loadOf_def)
  from p inv ts ld Some show ?thesis by simp
qed

lemma emitted_Cons: "emitted (t # ts) (s # ss) = emitted [t] [s] @ emitted ts ss"
  by (cases s) simp_all

lemma skipped_Cons: "skipped (t # ts) (s # ss) = skipped [t] [s] @ skipped ts ss"
  by (cases s) simp_all

lemma stampsFor_Cons: "stampsFor k (t # ts) (s # ss) = stampsFor k [t] [s] @ stampsFor k ts ss"
  by (cases s) simp_all

lemma assignLoop_trace:
  assumes "runInv drivers byDay st"
  shows "\<exists>st'. assignLoop lc byDay st trips = Inr st' \<and> runInv drivers byDay st' \<and>
           length (selections lc byDay st trips) = length trips \<and>
           st_assignments st' = st_assignments st @ emitted trips (selections lc byDay st trips) \<and>
           (\<exists>ws. st_warnings st' = st_warnings st @ ws \<and>
                 list_all2 warnsAbout (skipped trips (selections lc byDay st trips)) ws) \<and>
           (\<forall>k. timestampsOf (driverTimestamps st') k =
                  timestampsOf (driverTimestamps st) k @ stampsFor k trips (selections lc byDay st trips)) \<and>
           (\<forall>k. loadOf (driverLoad st') k =
                  loadOf (driverLoad st) k + length (stampsFor k trips (selections lc byDay st trips)))"
  using assms
proof (induction trips arbitrary: st)
  case Nil
  then show ?case by simp
next
  case (Cons t ts)
  let ?c = "chosenDriver lc byDay st t"
  from processTrip_step [OF Cons.prems, of lc t] obtain st1 ws1 where
    p: "processTrip lc byDay st t = Inr st1" and inv1: "runInv drivers byDay st1"
    and a1: "st_assignments st1 = st_assignments st @ emitted [t] [?c]"
    and w1: "st_warnings st1 = st_warnings st @ ws1" "list_all2 warnsAbout (skipped [t] [?c]) ws1"
    and t1: "\<forall>k. timestampsOf (driverTimestamps st1) k =
                  timestampsOf (driverTimestamps st) k @ stampsFor k [t] [?c]"
    and l1: "\<forall>k. loadOf (driverLoad st1) k = loadOf (driverLoad st) k + length (stampsFor k [t] [?c])"
    by blast
  let ?sel = "selections lc byDay st1 ts"
  from Cons.IH [OF inv1] obtain st2 ws2 where
    r: "assignLoop lc byDay st1 ts = Inr st2" and inv2: "runInv drivers byDay st2"
    and len: "length ?sel = length ts"
    and a2: "st_assignments st2 = st_assignments st1 @ emitted ts ?sel"
    and w2: "st_warnings st2 = st_warnings st1 @ ws2" "list_all2 warnsAbout (skipped ts ?sel) ws2"
    and t2: "\<forall>k. timestampsOf (driverTimestamps st2) k =
                  timestampsOf (driverTimestamps st1) k @ stampsFor k ts ?sel"
    and l2: "\<forall>k. loadOf (driverLoad st2) k = loadOf (driverLoad st1) k + length (stampsFor k ts ?sel)"
    by blast
  have sel: "selections lc byDay st (t # ts) = ?c # ?sel" using p by simp
  have "assignLoop lc byDay st (t # ts) = Inr st2" using p r by simp
  moreover have "length (selections lc byDay st (t # ts)) = length (t # ts)"
    using sel len by simp
  moreover have "st_assignments st2 = st_assignments st @ emitted (t # ts) (selections lc byDay st (t # ts))"
    unfolding sel emitted_Cons [of t ts ?c ?sel] using a1 a2 by simp
  moreover have "st_warnings st2 = st_warnings st @ (ws1 @ ws2)" using w1 w2 by simp
  moreover have "list_all2 warnsAbout (skipped (t # ts) (selections lc byDay st (t # ts))) (ws1 @ ws2)"
    unfolding sel skipped_Cons [of t ts ?c ?sel] using w1(2) w2(2) by (rule list_all2_appendI)
  moreover have "\<forall>k. timestampsOf (driverTimestamps st2) k =
       timestampsOf (driverTimestamps st) k @ stampsFor k (t # ts) (selections lc byDay st (t # ts))"
    unfolding sel stampsFor_Cons [of _ t ts ?c ?sel] using t1 t2 by simp
  moreover have "\<forall>k. loadOf (driverLoad st2) k =
       loadOf (driverLoad st) k + length (stampsFor k (t # ts) (selections lc byDay st (t # ts)))"
    unfolding sel stampsFor_Cons [of _ t ts ?c ?sel] using l1 l2 by simp
  ultimately show ?case using inv2 by blast
qed

lemma consistent_refl: 
  assumes "consistentComparator c" shows "c a a = 0"
proof -
  from assms have "(c a a < 0) = (c a a > 0)" unfolding consistentComparator_def by blast
  then show ?thesis by arith
qed

lemma consistent_flip:
  assumes "consistentComparator c" "\<not> c a b < 0" shows "c b a \<le> 0"
proof -
  from assms(1) have "(c b a > 0) = (c a b < 0)" unfolding consistentComparator_def by blast
  with assms(2) show ?thesis by arith
qed

lemma consistent_trans:
  "consistentComparator c \<Longrightarrow> c a b \<le> 0 \<Longrightarrow> c b d \<le> 0 \<Longrightarrow> c a d \<le> 0"
  unfolding consistentComparator_def by blast

lemma ranksBefore_refl: "consistentComparator lc \<Longrightarrow> ranksBefore lc w a a"
  by (simp add: ranksBefore_def consistent_refl)

lemma ranksBefore_trans:
  assumes "consistentComparator lc" "ranksBefore lc w a b" "ranksBefore lc w b d"
  shows "ranksBefore lc w a d"
  using assms(2,3) consistent_trans [OF assms(1), of "d_name a" "d_name b" "d_name d"]
  unfolding ranksBefore_def by auto

lemma pickDriver_ranks:
  assumes "consistentComparator lc"
  shows "ranksBefore lc (loadOf load) (pickDriver lc load b d) b"
    and "ranksBefore lc (loadOf load) (pickDriver lc load b d) d"
  using consistent_refl [OF assms, of "d_name b"] consistent_refl [OF assms, of "d_name d"]
    consistent_flip [OF assms, of "d_name d" "d_name b"]
  by (auto simp: pickDriver_def ranksBefore_def Let_def)

lemma foldl_pickDriver_min:
  assumes "consistentComparator lc"
  shows "\<forall>x \<in> set (c # cs). ranksBefore lc (loadOf load) (foldl (pickDriver lc load) c cs) x"
proof (induction cs arbitrary: c)
  case Nil
  show ?case by (simp add: ranksBefore_refl [OF assms])
next
  case (Cons y ys)
  let ?b = "pickDriver lc load c y"
  let ?r = "foldl (pickDriver lc load) ?b ys"
  from Cons.IH [of ?b] have ih: "\<forall>x \<in> set (?b # ys). ranksBefore lc (loadOf load) ?r x" .
  then have rb: "ranksBefore lc (loadOf load) ?r ?b" by simp
  have "ranksBefore lc (loadOf load) ?r c"
    by (rule ranksBefore_trans [OF assms rb pickDriver_ranks(1) [OF assms]])
  moreover have "ranksBefore lc (loadOf load) ?r y"
    by (rule ranksBefore_trans [OF assms rb pickDriver_ranks(2) [OF assms]])
  ultimately show ?case using ih by simp
qed

lemma selections_nth:
  assumes "runInv drivers byDay st" "i < length trips"
  shows "\<exists>sti. assignLoop lc byDay st (take i trips) = Inr sti \<and> runInv drivers byDay sti \<and>
           selections lc byDay st (take i trips) = take i (selections lc byDay st trips) \<and>
           selections lc byDay st trips ! i = chosenDriver lc byDay sti (trips ! i)"
  using assms
proof (induction trips arbitrary: st i)
  case Nil
  then show ?case by simp
next
  case (Cons t ts)
  show ?case
  proof (cases i)
    case 0
    with Cons.prems show ?thesis by simp
  next
    case (Suc j)
    from processTrip_step [OF Cons.prems(1), of lc t] obtain st1 where
      p: "processTrip lc byDay st t = Inr st1" and inv1: "runInv drivers byDay st1" by blast
    from Suc Cons.prems(2) have j: "j < length ts" by simp
    from Cons.IH [OF inv1 j] obtain sti where
      "assignLoop lc byDay st1 (take j ts) = Inr sti" "runInv drivers byDay sti"
      "selections lc byDay st1 (take j ts) = take j (selections lc byDay st1 ts)"
      "selections lc byDay st1 ts ! j = chosenDriver lc byDay sti (ts ! j)" by blast
    with p Suc show ?thesis by simp
  qed
qed

lemma stateBefore:
  assumes "runInv drivers byDay st" "i < length trips"
  shows "\<exists>sti. runInv drivers byDay sti \<and>
           selections lc byDay st trips ! i = chosenDriver lc byDay sti (trips ! i) \<and>
           (\<forall>k. timestampsOf (driverTimestamps sti) k =
                  timestampsOf (driverTimestamps st) k @
                    stampsFor k (take i trips) (take i (selections lc byDay st trips))) \<and>
           (\<forall>k. loadOf (driverLoad sti) k =
                  loadOf (driverLoad st) k +
                    length (stampsFor k (take i trips) (take i (selections lc byDay st trips))))"
proof -
  from selections_nth [OF assms, of lc] obtain sti where
    r: "assignLoop lc byDay st (take i trips) = Inr sti"
    and tk: "selections lc byDay st (take i trips) = take i (selections lc byDay st trips)"
    and ch: "selections lc byDay st trips ! i = chosenDriver lc byDay sti (trips ! i)" by blast
  from assignLoop_trace [OF assms(1), of lc "take i trips"] r tk ch
  show ?thesis by auto
qed

subsection \<open>The whole run\<close>

lemma emitted_None: "emitted ts (replicate n None) = []"
  by (induction ts arbitrary: n) (simp, case_tac n, simp_all)

lemma skipped_None: "skipped ts (replicate (length ts) None) = ts"
  by (induction ts) simp_all

lemma length_stampsFor:
  "length ss = length ts \<Longrightarrow>
     length (stampsFor k ts ss) =
       length (filter (\<lambda>s. case s of None \<Rightarrow> False | Some d \<Rightarrow> d_id d = k) ss)"
proof (induction ts arbitrary: ss)
  case Nil
  then show ?case by simp
next
  case (Cons t ts)
  then obtain s ss' where ss: "ss = s # ss'" "length ss' = length ts"
    by (cases ss) auto
  with Cons.IH [of ss'] show ?case by (cases s) simp_all
qed

lemma count_emitted:
  "length (filter (\<lambda>a. a_driverId a = k) (emitted ts ss)) = length (stampsFor k ts ss)"
proof (induction ts ss rule: emitted.induct)
  case (1 t ts d ss)
  then show ?case by (simp add: makeAssignment_def Let_def)
qed simp_all

lemma length_emitted_skipped:
  "length ss = length ts \<Longrightarrow> length (emitted ts ss) + length (skipped ts ss) = length ts"
proof (induction ts arbitrary: ss)
  case Nil
  then show ?case by simp
next
  case (Cons t ts)
  then obtain s ss' where ss: "ss = s # ss'" "length ss' = length ts"
    by (cases ss) auto
  with Cons.IH [of ss'] show ?case by (cases s) simp_all
qed

lemma runInv_init: "runInv drivers (driversByDay lc drivers) (initState drivers ex)"
  by (auto simp: runInv_def dayDrivers_byDay initState_fields)

lemma length_selectionsOf: "length (selectionsOf lc trips drivers ex) = length trips"
  using assignLoop_trace [where lc = lc and trips = trips, OF runInv_init [of drivers lc ex]]
  by (auto simp: selectionsOf_def)

lemma run_main:
  assumes "drivers \<noteq> []"
  shows "\<exists>st. assignLoop lc (driversByDay lc drivers) (initState drivers ex) trips = Inr st \<and>
           st_assignments st = emitted trips (selectionsOf lc trips drivers ex) \<and>
           list_all2 warnsAbout (skipped trips (selectionsOf lc trips drivers ex)) (st_warnings st) \<and>
           (\<forall>d \<in> set drivers.
              loadOf (driverLoad st) (d_id d) = combinedCount ex (st_assignments st) (d_id d))"
proof -
  let ?sel = "selections lc (driversByDay lc drivers) (initState drivers ex) trips"
  have sel: "selectionsOf lc trips drivers ex = ?sel" using assms by (simp add: selectionsOf_def)
  from assignLoop_trace [where lc = lc and trips = trips, OF runInv_init [of drivers lc ex]] obtain st ws where
    r: "assignLoop lc (driversByDay lc drivers) (initState drivers ex) trips = Inr st"
    and a: "st_assignments st = emitted trips ?sel"
    and w: "st_warnings st = ws" "list_all2 warnsAbout (skipped trips ?sel) ws"
    and l: "\<forall>k. loadOf (driverLoad st) k =
              loadOf (driverLoad (initState drivers ex)) k + length (stampsFor k trips ?sel)"
    by (auto simp: initState_fields)
  have "\<forall>d \<in> set drivers.
          loadOf (driverLoad st) (d_id d) = combinedCount ex (st_assignments st) (d_id d)"
    using l a by (simp add: combinedCount_def count_emitted loadOf_def initState_fields)
  with r a w sel show ?thesis by simp
qed

lemma assign_unfold:
  assumes "trips \<noteq> []" "drivers \<noteq> []"
      and "assignLoop lc (driversByDay lc drivers) (initState drivers ex) trips = Inr st"
  shows "assignTripsToDrivers lc trips drivers ex =
           Inr \<lparr>assignments = st_assignments st, warnings = st_warnings st,
                summary = ''Assigned '' @ showNat (length (st_assignments st)) @ '' of ''
                            @ showNat (length trips) @ '' trips'',
                distribution = buildDistribution (driverLoad st) drivers,
                stats = \<lparr>totalTrips = int (length trips),
                         assignedCount = int (length (st_assignments st)),
                         unassignedCount = int (length trips) - int (length (st_assignments st))\<rparr>\<rparr>"
  using assms by (simp add: assignTripsToDrivers_def)

lemma assign_total: "\<exists>r. assignTripsToDrivers lc trips drivers ex = Inr r"
proof (cases "trips = [] \<or> drivers = []")
  case True
  then show ?thesis by (auto simp: assignTripsToDrivers_def)
next
  case False
  with run_main [where lc = lc and ex = ex and trips = trips and drivers = drivers] obtain st where
    "assignLoop lc (driversByDay lc drivers) (initState drivers ex) trips = Inr st" by blast
  from assign_unfold [OF _ _ this] False show ?thesis by blast
qed

lemma length_emitted_le: "length ss = length ts \<Longrightarrow> length (emitted ts ss) \<le> length ts"
  using length_emitted_skipped [of ss ts] by simp

lemma initState_known:
  "initState drivers (filter (\<lambda>e. e_driverId e \<in> d_id ` set drivers) ex) = initState drivers ex"
proof (rule loopState.equality)
  show "driverLoad (initState drivers (filter (\<lambda>e. e_driverId e \<in> d_id ` set drivers) ex)) =
          driverLoad (initState drivers ex)"
  proof
    fix k
    have "k \<in> d_id ` set drivers \<Longrightarrow>
            filter (\<lambda>e. e_driverId e = k) (filter (\<lambda>e. e_driverId e \<in> d_id ` set drivers) ex) =
            filter (\<lambda>e. e_driverId e = k) ex"
      by (induction ex) auto
    then show "driverLoad (initState drivers (filter (\<lambda>e. e_driverId e \<in> d_id ` set drivers) ex)) k =
            driverLoad (initState drivers ex) k"
      by (simp add: initState_fields)
  qed
  show "driverTimestamps (initState drivers (filter (\<lambda>e. e_driverId e \<in> d_id ` set drivers) ex)) =
          driverTimestamps (initState drivers ex)"
  proof
    fix k
    have "k \<in> d_id ` set drivers \<Longrightarrow>
            filter (\<lambda>e. e_driverId e = k) (filter (\<lambda>e. e_driverId e \<in> d_id ` set drivers) ex) =
            filter (\<lambda>e. e_driverId e = k) ex"
      by (induction ex) auto
    then show "driverTimestamps (initState drivers (filter (\<lambda>e. e_driverId e \<in> d_id ` set drivers) ex)) k =
            driverTimestamps (initState drivers ex) k"
      by (simp add: initState_fields)
  qed
qed (simp_all add: initState_fields)

lemma farApart_iff: "farApart x y \<longleftrightarrow> \<not> timestampsTooClose x y"
  by (cases x; cases y) (auto simp: farApart_def)

lemma stampsFor_mem:
  "j < length ts \<Longrightarrow> j < length ss \<Longrightarrow> ss ! j = Some d \<Longrightarrow> d_id d = k \<Longrightarrow>
     tripTimestampOf (ts ! j) \<in> set (stampsFor k ts ss)"
proof (induction k ts ss arbitrary: j rule: stampsFor.induct)
  case (1 k t ts d' ss)
  then show ?case by (cases j) auto
next
  case (2 k t ts ss)
  then show ?case by (cases j) auto
qed simp_all

lemma main_stateBefore:
  assumes "drivers \<noteq> []" "i < length trips"
  shows "\<exists>sti. selectionsOf lc trips drivers ex ! i =
                 chosenDriver lc (driversByDay lc drivers) sti (trips ! i) \<and>
           (\<forall>d. d \<in> set (candidatesOf (driversByDay lc drivers) sti (trips ! i)) \<longleftrightarrow>
                  eligible drivers ex trips (selectionsOf lc trips drivers ex) i d) \<and>
           (\<forall>d \<in> set drivers. loadOf (driverLoad sti) (d_id d) =
                  workloadBefore ex trips (selectionsOf lc trips drivers ex) i (d_id d))"
proof -
  let ?byDay = "driversByDay lc drivers"
  let ?sel = "selections lc ?byDay (initState drivers ex) trips"
  have sel: "selectionsOf lc trips drivers ex = ?sel" using assms(1) by (simp add: selectionsOf_def)
  from stateBefore [where lc = lc, OF runInv_init [of drivers lc ex] assms(2)] obtain sti where
    ch: "?sel ! i = chosenDriver lc ?byDay sti (trips ! i)"
    and ts: "\<forall>k. timestampsOf (driverTimestamps sti) k =
                timestampsOf (driverTimestamps (initState drivers ex)) k @
                  stampsFor k (take i trips) (take i ?sel)"
    and ld: "\<forall>k. loadOf (driverLoad sti) k =
                loadOf (driverLoad (initState drivers ex)) k +
                  length (stampsFor k (take i trips) (take i ?sel))"
    by blast
  have len: "length ?sel = length trips"
    using length_selectionsOf [of lc trips drivers ex] sel by simp
  have held: "\<forall>d \<in> set drivers. timestampsOf (driverTimestamps sti) (d_id d) =
                heldBefore ex trips ?sel i (d_id d)"
    using ts by (simp add: heldBefore_def timestampsOf_def initState_fields)
  have cand: "\<forall>d. d \<in> set (candidatesOf ?byDay sti (trips ! i)) \<longleftrightarrow>
                eligible drivers ex trips ?sel i d"
    using held
    by (auto simp: candidatesOf_def availableDriversOf_def dayDrivers_byDay eligible_def
          list_ex_iff)
  have "length (take i ?sel) = length (take i trips)" using len by simp
  then have "\<forall>k. length (stampsFor k (take i trips) (take i ?sel)) =
      length (filter (\<lambda>s. case s of None \<Rightarrow> False | Some d \<Rightarrow> d_id d = k) (take i ?sel))"
    using length_stampsFor by blast
  with ld have "\<forall>d \<in> set drivers. loadOf (driverLoad sti) (d_id d) =
                  workloadBefore ex trips ?sel i (d_id d)"
    by (simp add: workloadBefore_def loadOf_def initState_fields)
  with ch cand show ?thesis unfolding sel by blast
qed

lemma selection_eligible:
  assumes "i < length trips" "selectionsOf lc trips drivers ex ! i = Some d"
  shows "eligible drivers ex trips (selectionsOf lc trips drivers ex) i d"
proof (cases "drivers = []")
  case True
  with assms show ?thesis by (simp add: selectionsOf_def)
next
  case False
  from main_stateBefore [OF False assms(1), of lc ex] assms(2) chosenDriver_mem
  show ?thesis by metis
qed

lemma assign_emitted:
  "\<exists>r. assignTripsToDrivers lc trips drivers ex = Inr r \<and>
        assignments r = emitted trips (selectionsOf lc trips drivers ex)"
proof (cases "trips = [] \<or> drivers = []")
  case True
  then show ?thesis
    by (auto simp: assignTripsToDrivers_def selectionsOf_def emitted_None)
next
  case False
  with run_main [where lc = lc and ex = ex and trips = trips and drivers = drivers] obtain st where
    r: "assignLoop lc (driversByDay lc drivers) (initState drivers ex) trips = Inr st"
    and a: "st_assignments st = emitted trips (selectionsOf lc trips drivers ex)" by blast
  from assign_unfold [OF _ _ r] False a show ?thesis by simp
qed

lemma sample_selections:
  "selectionsOf codeUnitCompare sampleTrips [bob, alice] sampleExisting =
     [Some alice, Some bob, Some alice, Some alice, None]"
  by code_simp

lemma insertBy_desc:
  "sorted_wrt (\<lambda>a b. tripCount b \<le> tripCount a) xs \<Longrightarrow>
     sorted_wrt (\<lambda>a b. tripCount b \<le> tripCount a)
       (insertBy (\<lambda>a b. int (tripCount b) - int (tripCount a)) x xs)"
proof (induction xs)
  case Nil
  show ?case by simp
next
  case (Cons y ys)
  have "set (insertBy (\<lambda>a b. int (tripCount b) - int (tripCount a)) x ys) = insert x (set ys)"
    using mset_insertBy [of "\<lambda>a b. int (tripCount b) - int (tripCount a)" x ys]
    by (metis set_mset_add_mset_insert set_mset_mset)
  with Cons show ?case by auto
qed

lemma sortBy_desc:
  "sorted_wrt (\<lambda>a b. tripCount b \<le> tripCount a)
     (sortBy (\<lambda>a b. int (tripCount b) - int (tripCount a)) xs)"
  by (induction xs) (simp_all add: sortBy_def insertBy_desc)

lemma codeUnitCompare_flip: "(codeUnitCompare a b < 0) = (codeUnitCompare b a > 0)"
  by (induction a b rule: codeUnitCompare.induct) auto

lemma codeUnitCompare_trans:
  "codeUnitCompare a b \<le> 0 \<Longrightarrow> codeUnitCompare b d \<le> 0 \<Longrightarrow> codeUnitCompare a d \<le> 0"
proof (induction a arbitrary: b d)
  case Nil
  then show ?case by (cases d) simp_all
next
  case (Cons x xs)
  from Cons.prems(1) obtain y ys where b: "b = y # ys" by (cases b) auto
  from Cons.prems(2) b obtain z zs where d: "d = z # zs" by (cases d) auto
  from Cons.prems Cons.IH [of ys zs] show ?case
    unfolding b d by (auto split: if_splits)
qed

lemma codeUnitCompare_consistent: "consistentComparator codeUnitCompare"
  unfolding consistentComparator_def
  using codeUnitCompare_flip codeUnitCompare_trans by blast

lemma ranksBefore_cong:
  "w (d_id a) = w' (d_id a) \<Longrightarrow> w (d_id b) = w' (d_id b) \<Longrightarrow>
     ranksBefore lc w a b = ranksBefore lc w' a b"
  by (simp add: ranksBefore_def)

lemma sample_eligible_bob:
  "eligible [bob, alice] sampleExisting sampleTrips
     [Some alice, Some bob, Some alice, Some alice, None] 3 bob"
  by code_simp

lemma sample_workloads:
  "workloadBefore sampleExisting sampleTrips [Some alice, Some bob, Some alice, Some alice, None] 3 (d_id bob) = 1"
  "workloadBefore sampleExisting sampleTrips [Some alice, Some bob, Some alice, Some alice, None] 3 (d_id alice) = 3"
  by code_simp+

lemma sample_run:
  "assignTripsToDrivers codeUnitCompare sampleTrips [bob, alice] sampleExisting =
     Inr \<lparr>assignments =
            [\<lparr>a_tripId = ''t1'', a_driverId = ''d1'', a_reasoning = ''Wednesday - Alice (high priority)''\<rparr>,
             \<lparr>a_tripId = ''t2'', a_driverId = ''d2'', a_reasoning = ''Wednesday - Bob (med priority)''\<rparr>,
             \<lparr>a_tripId = ''t3'', a_driverId = ''d1'', a_reasoning = ''Wednesday - Alice (high priority)''\<rparr>,
             \<lparr>a_tripId = ''t4'', a_driverId = ''d1'', a_reasoning = ''Wednesday - Alice (high priority)''\<rparr>],
          warnings = [''Trip T-5: All drivers have conflicting trips near 00:20 on 2026-01-14''],
          summary = ''Assigned 4 of 5 trips'',
          distribution = [\<lparr>driverId = ''d1'', driverName = ''Alice'', tripCount = 4\<rparr>,
                          \<lparr>driverId = ''d2'', driverName = ''Bob'', tripCount = 1\<rparr>],
          stats = \<lparr>totalTrips = 5, assignedCount = 4, unassignedCount = 1\<rparr>\<rparr>"
  by code_simp

subsection \<open>Timestamps\<close>





subsection \<open>A rejected time string and no time\<close>

lemma parseTime_null [simp]: "parseTime None = None"
  by (simp add: parseTime_def)

lemma rejected_time_as_null:
  assumes "parseTime time = None"
  shows "getTimestamp date time = getTimestamp date None"
    and "getTimestamp date time = setUTCHours date 0 0 0 0"
    and "getEffectiveDayOfWeek dow time = dow"
  using assms by (simp_all add: getTimestamp_def getEffectiveDayOfWeek_def)

lemma sameButRejectedTime_cases:
  assumes "sameButRejectedTime t t'"
  obtains "t' = t"
  | "parseTime (t_plannedArrivalTime t) = None" "t' = t\<lparr>t_plannedArrivalTime := None\<rparr>"
  using assms by (auto simp: sameButRejectedTime_def)

lemma sameButRejectedTime_fields:
  assumes "sameButRejectedTime t t'"
  shows "getTimestamp date (t_plannedArrivalTime t') = getTimestamp date (t_plannedArrivalTime t)"
    and "getEffectiveDayOfWeek dow (t_plannedArrivalTime t') =
           getEffectiveDayOfWeek dow (t_plannedArrivalTime t)"
    and "t_tripDate t' = t_tripDate t" and "t_dayOfWeek t' = t_dayOfWeek t"
    and "t_id t' = t_id t" and "t_tripId t' = t_tripId t"
proof -
  from assms show "getTimestamp date (t_plannedArrivalTime t') =
      getTimestamp date (t_plannedArrivalTime t)"
    by (cases rule: sameButRejectedTime_cases) (simp_all add: rejected_time_as_null(2))
  from assms show "getEffectiveDayOfWeek dow (t_plannedArrivalTime t') =
      getEffectiveDayOfWeek dow (t_plannedArrivalTime t)"
    by (cases rule: sameButRejectedTime_cases) (simp_all add: rejected_time_as_null(3))
  from assms have d: "t' = t \<or> t' = t\<lparr>t_plannedArrivalTime := None\<rparr>"
    by (cases rule: sameButRejectedTime_cases) simp_all
  from d show "t_tripDate t' = t_tripDate t" by (rule disjE) simp_all
  from d show "t_dayOfWeek t' = t_dayOfWeek t" by (rule disjE) simp_all
  from d show "t_id t' = t_id t" by (rule disjE) simp_all
  from d show "t_tripId t' = t_tripId t" by (rule disjE) simp_all
qed

lemma sameButRejectedTime_warning:
  assumes "sameButRejectedTime t t'"
  shows "noDriverWarning t' e = noDriverWarning t e"
    and "sameButTimeQuote (conflictWarning t s) (conflictWarning t' s)"
    and "makeAssignment t' e d = makeAssignment t e d"
proof -
  show "noDriverWarning t' e = noDriverWarning t e"
    using sameButRejectedTime_fields(4,6) [OF assms] by (simp add: noDriverWarning_def Let_def)
  show "makeAssignment t' e d = makeAssignment t e d"
    using sameButRejectedTime_fields(4,5) [OF assms] by (simp add: makeAssignment_def Let_def)
  from assms show "sameButTimeQuote (conflictWarning t s) (conflictWarning t' s)"
  proof (cases rule: sameButRejectedTime_cases)
    case 1
    then show ?thesis by (simp add: sameButTimeQuote_def)
  next
    case 2
    then have "parseTime (t_plannedArrivalTime t) = None \<and>
        conflictWarning t s = conflictWarning t s \<and>
        conflictWarning t' s = conflictWarning (t\<lparr>t_plannedArrivalTime := None\<rparr>) s"
      by simp
    then show ?thesis
      unfolding sameButTimeQuote_def
      by (intro disjI2 exI [of _ t] exI [of _ s])
  qed
qed

lemma availableDriversOf_cong:
  "driverTimestamps st' = driverTimestamps st \<Longrightarrow>
     availableDriversOf st' dd ts = availableDriversOf st dd ts"
  by (simp add: availableDriversOf_def)

lemma processTrip_eq:
  "processTrip lc byDay st trip =
     (case candidatesOf byDay st trip of
        [] \<Rightarrow>
          (if dayDriversOf byDay (effectiveDayOf trip) = [] then
             Inr (st\<lparr>st_warnings := st_warnings st @ [noDriverWarning trip (effectiveDayOf trip)]\<rparr>)
           else
             (case isoDatePart (t_tripDate trip) of
                Inl e \<Rightarrow> Inl e
              | Inr dateStr \<Rightarrow>
                  Inr (st\<lparr>st_warnings := st_warnings st @ [conflictWarning trip dateStr]\<rparr>)))
      | c # cs \<Rightarrow>
          (case driverTimestamps st (d_id (foldl (pickDriver lc (driverLoad st)) c cs)) of
             None \<Rightarrow> Inl TypeError
           | Some timestamps \<Rightarrow>
               Inr (st\<lparr>st_assignments := st_assignments st @
                         [makeAssignment trip (effectiveDayOf trip)
                            (foldl (pickDriver lc (driverLoad st)) c cs)],
                       driverTimestamps := (driverTimestamps st)
                         (d_id (foldl (pickDriver lc (driverLoad st)) c cs) \<mapsto>
                            timestamps @ [tripTimestampOf trip]),
                       driverLoad :=
                         (case driverLoad st (d_id (foldl (pickDriver lc (driverLoad st)) c cs)) of
                            None \<Rightarrow> driverLoad st
                          | Some n \<Rightarrow> (driverLoad st)
                              (d_id (foldl (pickDriver lc (driverLoad st)) c cs) \<mapsto> n + 1))\<rparr>)))"
proof (cases "candidatesOf byDay st trip")
  case Nil
  then have "availableDriversOf st
      (dayDriversOf byDay (getEffectiveDayOfWeek (t_dayOfWeek trip) (t_plannedArrivalTime trip)))
      (getTimestamp (t_tripDate trip) (t_plannedArrivalTime trip)) = []"
    by (simp add: candidatesOf_def effectiveDayOf_def tripTimestampOf_def)
  then show ?thesis
    by (simp add: processTrip_def Nil effectiveDayOf_def)
next
  case (Cons c cs)
  then have "availableDriversOf st
      (dayDriversOf byDay (getEffectiveDayOfWeek (t_dayOfWeek trip) (t_plannedArrivalTime trip)))
      (getTimestamp (t_tripDate trip) (t_plannedArrivalTime trip)) = c # cs"
    by (simp add: candidatesOf_def effectiveDayOf_def tripTimestampOf_def)
  then show ?thesis
    by (simp add: processTrip_def Cons reduce_def effectiveDayOf_def tripTimestampOf_def
          cong: option.case_cong)
qed

lemma warnings_snoc:
  "list_all2 sameButTimeQuote ws ws' \<Longrightarrow> sameButTimeQuote w w' \<Longrightarrow>
     list_all2 sameButTimeQuote (ws @ [w]) (ws' @ [w'])"
  by (simp add: list_all2_appendI)

lemma sameButTimeQuote_same: "sameButTimeQuote w w"
  by (simp add: sameButTimeQuote_def)

lemma processTrip_agree:
  assumes t: "sameButRejectedTime t t'" and s: "statesAgree st st'"
  shows "rel_sum (=) statesAgree (processTrip lc byDay st t) (processTrip lc byDay st' t')"
proof -
  from s have ld: "driverLoad st' = driverLoad st" and dt: "driverTimestamps st' = driverTimestamps st"
    and asg: "st_assignments st' = st_assignments st"
    and ws: "list_all2 sameButTimeQuote (st_warnings st) (st_warnings st')"
    by (simp_all add: statesAgree_def)
  note f = sameButRejectedTime_fields [OF t]
  have e: "effectiveDayOf t' = effectiveDayOf t"
    by (simp add: effectiveDayOf_def f(2,4))
  have ts: "tripTimestampOf t' = tripTimestampOf t"
    by (simp add: tripTimestampOf_def f(1,3))
  have c: "candidatesOf byDay st' t' = candidatesOf byDay st t"
    by (simp add: candidatesOf_def e ts availableDriversOf_cong [OF dt])
  show ?thesis
  proof (cases "candidatesOf byDay st t")
    case Nil
    show ?thesis
    proof (cases "dayDriversOf byDay (effectiveDayOf t) = []")
      case True
      have l: "processTrip lc byDay st t =
          Inr (st\<lparr>st_warnings := st_warnings st @ [noDriverWarning t (effectiveDayOf t)]\<rparr>)"
        by (simp add: processTrip_eq Nil True)
      have r: "processTrip lc byDay st' t' =
          Inr (st'\<lparr>st_warnings := st_warnings st' @ [noDriverWarning t (effectiveDayOf t)]\<rparr>)"
        by (simp add: processTrip_eq c e Nil True sameButRejectedTime_warning(1) [OF t])
      from warnings_snoc [OF ws sameButTimeQuote_same] ld dt asg show ?thesis
        unfolding l r by (simp add: statesAgree_def)
    next
      case False
      show ?thesis
      proof (cases "isoDatePart (t_tripDate t)")
        case (Inl err)
        have "processTrip lc byDay st t = Inl err" "processTrip lc byDay st' t' = Inl err"
          by (simp_all add: processTrip_eq c e f(3) Nil False Inl)
        then show ?thesis by simp
      next
        case (Inr dateStr)
        have l: "processTrip lc byDay st t =
            Inr (st\<lparr>st_warnings := st_warnings st @ [conflictWarning t dateStr]\<rparr>)"
          by (simp add: processTrip_eq Nil False Inr)
        have r: "processTrip lc byDay st' t' =
            Inr (st'\<lparr>st_warnings := st_warnings st' @ [conflictWarning t' dateStr]\<rparr>)"
          by (simp add: processTrip_eq c e f(3) Nil False Inr)
        from warnings_snoc [OF ws sameButRejectedTime_warning(2) [OF t]] ld dt asg show ?thesis
          unfolding l r by (simp add: statesAgree_def)
      qed
    qed
  next
    case (Cons c0 cs)
    let ?d = "foldl (pickDriver lc (driverLoad st)) c0 cs"
    show ?thesis
    proof (cases "driverTimestamps st (d_id ?d)")
      case None
      have "processTrip lc byDay st t = Inl TypeError" "processTrip lc byDay st' t' = Inl TypeError"
        by (simp_all add: processTrip_eq c ld dt Cons None)
      then show ?thesis by simp
    next
      case (Some l)
      let ?upd = "\<lambda>x. x\<lparr>st_assignments := st_assignments st @ [makeAssignment t (effectiveDayOf t) ?d],
                       driverTimestamps := (driverTimestamps st)(d_id ?d \<mapsto> l @ [tripTimestampOf t]),
                       driverLoad :=
                         (case driverLoad st (d_id ?d) of
                            None \<Rightarrow> driverLoad st
                          | Some n \<Rightarrow> (driverLoad st)(d_id ?d \<mapsto> n + 1))\<rparr>"
      have l: "processTrip lc byDay st t = Inr (?upd st)"
        by (simp add: processTrip_eq Cons Some)
      have r: "processTrip lc byDay st' t' = Inr (?upd st')"
        by (simp add: processTrip_eq c e ts ld dt asg Cons Some
              sameButRejectedTime_warning(3) [OF t] cong: option.case_cong)
      from ws show ?thesis
        unfolding l r by (simp add: statesAgree_def)
    qed
  qed
qed

lemma assignLoop_agree:
  assumes "list_all2 sameButRejectedTime ts ts'" "statesAgree st st'"
  shows "rel_sum (=) statesAgree (assignLoop lc byDay st ts) (assignLoop lc byDay st' ts')"
  using assms
proof (induction ts ts' arbitrary: st st' rule: list_all2_induct)
  case Nil
  then show ?case by simp
next
  case (Cons t ts t' ts')
  from processTrip_agree [OF Cons.hyps(1) Cons.prems, of lc byDay]
  have step: "rel_sum (=) statesAgree (processTrip lc byDay st t) (processTrip lc byDay st' t')" .
  show ?case
  proof (cases "processTrip lc byDay st t")
    case (Inl e)
    with step have "processTrip lc byDay st' t' = Inl e"
      by (cases "processTrip lc byDay st' t'") simp_all
    with Inl show ?thesis by simp
  next
    case (Inr s)
    with step obtain s' where s': "processTrip lc byDay st' t' = Inr s'" "statesAgree s s'"
      by (cases "processTrip lc byDay st' t'") simp_all
    with Inr Cons.IH [of s s'] show ?thesis by simp
  qed
qed

lemma statesAgree_init: "statesAgree (initState drivers ex) (initState drivers ex)"
  by (simp add: statesAgree_def initState_fields)

text \<open>
  What \<^verbatim>\<open>parseTime\<close> accepts is wider than two digits, a colon and two digits:
  \<^verbatim>\<open>parseInt\<close> stops at the first character that is no digit, and one digit is
  enough.
\<close>

lemma parseTime_lenient:
  "parseTime (Some ''1x:30'') = Some \<lparr>hours = 1, minutes = 30\<rparr>"
  "parseTime (Some ''7:35'') = Some \<lparr>hours = 7, minutes = 35\<rparr>"
  by code_simp+

text \<open>
  For the strings that \<^verbatim>\<open>parseTime\<close> rejects the function does what it does with no
  time: midnight UTC of \<open>tripDate\<close> as timestamp, the trip's own \<open>dayOfWeek\<close> as effective
  day, and the same assignments, distribution, counts and summary. One text differs: the
  conflict warning prints \<^verbatim>\<open>trip.plannedArrivalTime || "unknown time"\<close>, so it
  quotes the rejected string.
\<close>

lemma rejected_time_like_null:
  assumes "list_all2 sameButRejectedTime trips trips'"
  shows "(\<exists>r r'. assignTripsToDrivers lc trips drivers ex = Inr r \<and>
            assignTripsToDrivers lc trips' drivers ex = Inr r' \<and>
            assignments r' = assignments r \<and> distribution r' = distribution r \<and>
            stats r' = stats r \<and> summary r' = summary r \<and>
            list_all2 sameButTimeQuote (warnings r) (warnings r')) \<and>
         (\<forall>t \<in> set trips. parseTime (t_plannedArrivalTime t) = None \<longrightarrow>
            tripTimestampOf t = setUTCHours (t_tripDate t) 0 0 0 0 \<and>
            tripTimestampOf t = tripTimestampOf (t\<lparr>t_plannedArrivalTime := None\<rparr>) \<and>
            effectiveDayOf t = t_dayOfWeek t \<and>
            effectiveDayOf t = effectiveDayOf (t\<lparr>t_plannedArrivalTime := None\<rparr>))"
proof -
  from assms have len: "length trips' = length trips" by (simp add: list_all2_lengthD)
  have runs: "\<exists>r r'. assignTripsToDrivers lc trips drivers ex = Inr r \<and>
            assignTripsToDrivers lc trips' drivers ex = Inr r' \<and>
            assignments r' = assignments r \<and> distribution r' = distribution r \<and>
            stats r' = stats r \<and> summary r' = summary r \<and>
            list_all2 sameButTimeQuote (warnings r) (warnings r')"
  proof (cases "trips = [] \<or> drivers = []")
    case True
    with len show ?thesis
      by (auto simp: assignTripsToDrivers_def sameButTimeQuote_same)
  next
    case False
    with len have ne: "trips \<noteq> []" "trips' \<noteq> []" "drivers \<noteq> []" by auto
    let ?byDay = "driversByDay lc drivers"
    let ?init = "initState drivers ex"
    from run_main [where lc = lc and ex = ex and trips = trips and drivers = drivers] ne(3)
    obtain st where st: "assignLoop lc ?byDay ?init trips = Inr st" by blast
    from run_main [where lc = lc and ex = ex and trips = trips' and drivers = drivers] ne(3)
    obtain st' where st': "assignLoop lc ?byDay ?init trips' = Inr st'" by blast
    from assignLoop_agree [OF assms statesAgree_init [of drivers ex], where lc = lc and byDay = "?byDay"] st st'
    have ag: "statesAgree st st'" by simp
    note l = assign_unfold [OF ne(1) ne(3) st]
    note r = assign_unfold [OF ne(2) ne(3) st']
    from ag len show ?thesis
      unfolding l r by (simp add: statesAgree_def)
  qed
  have each: "\<forall>t \<in> set trips. parseTime (t_plannedArrivalTime t) = None \<longrightarrow>
            tripTimestampOf t = setUTCHours (t_tripDate t) 0 0 0 0 \<and>
            tripTimestampOf t = tripTimestampOf (t\<lparr>t_plannedArrivalTime := None\<rparr>) \<and>
            effectiveDayOf t = t_dayOfWeek t \<and>
            effectiveDayOf t = effectiveDayOf (t\<lparr>t_plannedArrivalTime := None\<rparr>)"
    by (simp add: tripTimestampOf_def effectiveDayOf_def rejected_time_as_null(2,3))
  from runs each show ?thesis by blast
qed

lemma raw_time_in_warning:
  "parseTime (Some ''abc'') = None \<and>
   assignTripsToDrivers codeUnitCompare [tripAt ''t1'' ''T-1'' (Some ''abc'')] [bob]
     [existingAt ''d2'' None] =
     Inr \<lparr>assignments = [],
          warnings = [''Trip T-1: All drivers have conflicting trips near abc on 2026-01-14''],
          summary = ''Assigned 0 of 1 trips'',
          distribution = [\<lparr>driverId = ''d2'', driverName = ''Bob'', tripCount = 1\<rparr>],
          stats = \<lparr>totalTrips = 1, assignedCount = 0, unassignedCount = 1\<rparr>\<rparr> \<and>
   assignTripsToDrivers codeUnitCompare [tripAt ''t1'' ''T-1'' None] [bob]
     [existingAt ''d2'' None] =
     Inr \<lparr>assignments = [],
          warnings = [''Trip T-1: All drivers have conflicting trips near unknown time on 2026-01-14''],
          summary = ''Assigned 0 of 1 trips'',
          distribution = [\<lparr>driverId = ''d2'', driverName = ''Bob'', tripCount = 1\<rparr>],
          stats = \<lparr>totalTrips = 1, assignedCount = 0, unassignedCount = 1\<rparr>\<rparr>"
  by code_simp

lemma collationCompare_consistent: "consistentComparator collationCompare"
  unfolding consistentComparator_def collationCompare_def by auto

lemma collation_selections:
  "selectionsOf collationCompare [tripAt ''t1'' ''T-1'' (Some ''08:00'')] [bobUpper, aliceLower] [] =
     [Some aliceLower]"
  by code_simp

lemma collation_eligible:
  "eligible [bobUpper, aliceLower] [] [tripAt ''t1'' ''T-1'' (Some ''08:00'')] [Some aliceLower] 0
     bobUpper"
  by code_simp

section \<open>The specified properties\<close>

text \<open>
  C10. With no trip the function returns the fixed result: summary "No trips to assign",
  no assignment, no warning, an empty distribution and three zero counts, whatever the
  drivers and the existing assignments are; with no driver either, the branch for the
  empty trip list still comes first and no "No active drivers available" warning appears.
\<close>

theorem no_trips_fixed_result:
  "assignTripsToDrivers lc [] drivers ex =
     Inr \<lparr>assignments = [], warnings = [], summary = ''No trips to assign'', distribution = [],
          stats = \<lparr>totalTrips = 0, assignedCount = 0, unassignedCount = 0\<rparr>\<rparr>
   \<and> (\<exists>r. assignTripsToDrivers lc [] [] ex = Inr r \<and>
            ''No active drivers available'' \<notin> set (warnings r))"
  by (simp add: assignTripsToDrivers_def)

theorem no_trips_fixed_result_witness:
  "assignTripsToDrivers codeUnitCompare [] [bob, alice] sampleExisting =
     Inr \<lparr>assignments = [], warnings = [], summary = ''No trips to assign'', distribution = [],
          stats = \<lparr>totalTrips = 0, assignedCount = 0, unassignedCount = 0\<rparr>\<rparr>"
  using no_trips_fixed_result [of codeUnitCompare "[bob, alice]" sampleExisting] by simp

text \<open>
  C4. For every input the call returns a result whose \<open>totalTrips\<close> is the number of
  input trips, whose \<open>assignedCount\<close> is the length of the returned assignment list, and
  whose \<open>assignedCount\<close> and \<open>unassignedCount\<close> add up to \<open>totalTrips\<close>; the unassigned
  count is never negative.
\<close>

theorem stats_counts:
  "\<exists>r. assignTripsToDrivers lc trips drivers ex = Inr r \<and>
        totalTrips (stats r) = int (length trips) \<and>
        assignedCount (stats r) = int (length (assignments r)) \<and>
        assignedCount (stats r) + unassignedCount (stats r) = totalTrips (stats r) \<and>
        0 \<le> unassignedCount (stats r)"
proof (cases "trips = [] \<or> drivers = []")
  case True
  then show ?thesis by (auto simp: assignTripsToDrivers_def)
next
  case False
  with run_main [where lc = lc and ex = ex and trips = trips and drivers = drivers] obtain st where
    r: "assignLoop lc (driversByDay lc drivers) (initState drivers ex) trips = Inr st"
    and a: "st_assignments st = emitted trips (selectionsOf lc trips drivers ex)" by blast
  have "length (st_assignments st) \<le> length trips"
    unfolding a by (rule length_emitted_le [OF length_selectionsOf])
  with assign_unfold [OF _ _ r] False show ?thesis by simp
qed

theorem stats_counts_witness:
  "\<exists>r. assignTripsToDrivers codeUnitCompare sampleTrips [bob, alice] sampleExisting = Inr r \<and>
        totalTrips (stats r) = 5 \<and>
        assignedCount (stats r) = int (length (assignments r)) \<and>
        assignedCount (stats r) + unassignedCount (stats r) = 5"
  using stats_counts [of codeUnitCompare sampleTrips "[bob, alice]" sampleExisting]
  by (auto simp: sampleTrips_def)

text \<open>
  C9. An existing assignment whose \<open>driverId\<close> is the id of no input driver is ignored:
  for every input the call returns what it returns once all such entries are removed (the
  same assignments, warnings, summary, distribution and counts).
\<close>

theorem unknown_existing_ignored:
  "assignTripsToDrivers lc trips drivers ex =
     assignTripsToDrivers lc trips drivers (filter (\<lambda>e. e_driverId e \<in> d_id ` set drivers) ex)"
  by (simp add: assignTripsToDrivers_def initState_known)

theorem unknown_existing_ignored_witness:
  "assignTripsToDrivers codeUnitCompare sampleTrips [bob, alice] sampleExisting =
     assignTripsToDrivers codeUnitCompare sampleTrips [bob, alice] [existingAt ''d1'' (Some ''03:00'')]"
  using unknown_existing_ignored [of codeUnitCompare sampleTrips "[bob, alice]" sampleExisting]
  by (simp add: sampleExisting_def existingAt_def bob_def alice_def)

text \<open>
  C1 (as amended). For every input the call returns, and with \<open>sel\<close> the driver chosen
  for each trip (the assignment list is exactly what \<open>sel\<close> stands for): the timestamp of
  a trip given to a driver is three hours or more from the timestamp of every pre-existing
  assignment of that driver id, and from the timestamp of every earlier trip of the run
  given to that driver id. Exactly three hours is allowed. Nothing is said of two
  pre-existing assignments of one driver: the function takes them as they are.
\<close>

theorem new_assignments_separated:
  "\<exists>r. assignTripsToDrivers lc trips drivers ex = Inr r \<and>
     (let sel = selectionsOf lc trips drivers ex
      in length sel = length trips \<and> assignments r = emitted trips sel \<and>
         (\<forall>i < length trips. \<forall>d. sel ! i = Some d \<longrightarrow>
            (\<forall>e \<in> set ex. e_driverId e = d_id d \<longrightarrow>
               farApart (existingTimestampOf e) (tripTimestampOf (trips ! i))) \<and>
            (\<forall>j < i. \<forall>d'. sel ! j = Some d' \<and> d_id d' = d_id d \<longrightarrow>
               farApart (tripTimestampOf (trips ! j)) (tripTimestampOf (trips ! i)))))"
proof -
  let ?sel = "selectionsOf lc trips drivers ex"
  have len: "length ?sel = length trips" by (rule length_selectionsOf)
  have sep: "farApart (existingTimestampOf e) (tripTimestampOf (trips ! i))"
    if "i < length trips" "?sel ! i = Some d" "e \<in> set ex" "e_driverId e = d_id d" for i d e
  proof -
    from selection_eligible [OF that(1,2)] that(3,4)
    have "\<not> timestampsTooClose (existingTimestampOf e) (tripTimestampOf (trips ! i))"
      by (auto simp: eligible_def heldBefore_def)
    then show ?thesis by (simp add: farApart_iff)
  qed
  have pair: "farApart (tripTimestampOf (trips ! j)) (tripTimestampOf (trips ! i))"
    if "i < length trips" "?sel ! i = Some d" "j < i" "?sel ! j = Some d'" "d_id d' = d_id d"
    for i j d d'
  proof -
    from that(1,3) len have "j < length (take i trips)" "j < length (take i ?sel)" by simp_all
    moreover from that(3,4) have "take i ?sel ! j = Some d'" by simp
    ultimately have "tripTimestampOf (take i trips ! j) \<in>
        set (stampsFor (d_id d) (take i trips) (take i ?sel))"
      using that(5) by (rule stampsFor_mem)
    with that(3) have "tripTimestampOf (trips ! j) \<in> set (heldBefore ex trips ?sel i (d_id d))"
      by (simp add: heldBefore_def)
    with selection_eligible [OF that(1,2)]
    have "\<not> timestampsTooClose (tripTimestampOf (trips ! j)) (tripTimestampOf (trips ! i))"
      by (simp add: eligible_def)
    then show ?thesis by (simp add: farApart_iff)
  qed
  from assign_emitted [of lc trips drivers ex] obtain r where
    "assignTripsToDrivers lc trips drivers ex = Inr r" "assignments r = emitted trips ?sel"
    by blast
  with len sep pair show ?thesis unfolding Let_def by blast
qed

theorem new_assignments_separated_witness:
  "selectionsOf codeUnitCompare sampleTrips [bob, alice] sampleExisting ! 0 = Some alice \<and>
   selectionsOf codeUnitCompare sampleTrips [bob, alice] sampleExisting ! 2 = Some alice \<and>
   existingAt ''d1'' (Some ''03:00'') \<in> set sampleExisting \<and>
   farApart (existingTimestampOf (existingAt ''d1'' (Some ''03:00'')))
     (tripTimestampOf (sampleTrips ! 2)) \<and>
   farApart (tripTimestampOf (sampleTrips ! 0)) (tripTimestampOf (sampleTrips ! 2))"
proof -
  let ?sel = "selectionsOf codeUnitCompare sampleTrips [bob, alice] sampleExisting"
  have s0: "?sel ! 0 = Some alice" and s2: "?sel ! 2 = Some alice"
    by (simp_all add: sample_selections)
  have e: "existingAt ''d1'' (Some ''03:00'') \<in> set sampleExisting"
    "e_driverId (existingAt ''d1'' (Some ''03:00'')) = d_id alice"
    by (simp_all add: sampleExisting_def existingAt_def alice_def)
  have i: "2 < length sampleTrips" by (simp add: sampleTrips_def)
  from new_assignments_separated [of codeUnitCompare sampleTrips "[bob, alice]" sampleExisting]
  have sep: "\<forall>i < length sampleTrips. \<forall>d. ?sel ! i = Some d \<longrightarrow>
      (\<forall>e \<in> set sampleExisting. e_driverId e = d_id d \<longrightarrow>
         farApart (existingTimestampOf e) (tripTimestampOf (sampleTrips ! i))) \<and>
      (\<forall>j < i. \<forall>d'. ?sel ! j = Some d' \<and> d_id d' = d_id d \<longrightarrow>
         farApart (tripTimestampOf (sampleTrips ! j)) (tripTimestampOf (sampleTrips ! i)))"
    unfolding Let_def by blast
  from sep i s2 have both:
    "(\<forall>e \<in> set sampleExisting. e_driverId e = d_id alice \<longrightarrow>
         farApart (existingTimestampOf e) (tripTimestampOf (sampleTrips ! 2))) \<and>
     (\<forall>j < 2. \<forall>d'. ?sel ! j = Some d' \<and> d_id d' = d_id alice \<longrightarrow>
         farApart (tripTimestampOf (sampleTrips ! j)) (tripTimestampOf (sampleTrips ! 2)))"
    by blast
  from both e have "farApart (existingTimestampOf (existingAt ''d1'' (Some ''03:00'')))
     (tripTimestampOf (sampleTrips ! 2))" by blast
  moreover from both s0 have
    "farApart (tripTimestampOf (sampleTrips ! 0)) (tripTimestampOf (sampleTrips ! 2))" by simp
  ultimately show ?thesis using s0 s2 e(1) by simp
qed

theorem existing_pair_counterexample:
  "assignTripsToDrivers codeUnitCompare [tripAt ''t1'' ''T-1'' (Some ''18:00'')] [alice]
     [existingAt ''d1'' (Some ''10:00''), existingAt ''d1'' (Some ''11:00'')] =
     Inr \<lparr>assignments = [\<lparr>a_tripId = ''t1'', a_driverId = ''d1'',
                            a_reasoning = ''Wednesday - Alice (high priority)''\<rparr>],
          warnings = [], summary = ''Assigned 1 of 1 trips'',
          distribution = [\<lparr>driverId = ''d1'', driverName = ''Alice'', tripCount = 3\<rparr>],
          stats = \<lparr>totalTrips = 1, assignedCount = 1, unassignedCount = 0\<rparr>\<rparr> \<and>
   existingTimestampOf (existingAt ''d1'' (Some ''10:00'')) = Some 1768384800000 \<and>
   existingTimestampOf (existingAt ''d1'' (Some ''11:00'')) = Some 1768388400000 \<and>
   \<not> farApart (Some 1768384800000) (Some 1768388400000)"
  by code_simp



text \<open>
  C3 (as amended). Let the host's \<open>localeCompare\<close> be a consistent comparison. Whenever a
  trip has a candidate (an input driver available on its effective day who holds no
  timestamp closer than three hours to the trip's), the call selects a candidate that
  ranks before every candidate in the order: lower priority value (an absent one counts
  as 2), then lower workload at that moment (pre-existing assignments of the driver id
  plus trips given to it earlier in the run), then the name that \<open>localeCompare\<close> puts
  first. That is the order of the host's collation, which need not be the order of the
  code units: it puts "alice" before "Bob". A driver of lower priority value wins over
  one of higher priority value and smaller workload.
\<close>

theorem minimal_candidate_selected:
  assumes "consistentComparator lc"
  shows "\<exists>r. assignTripsToDrivers lc trips drivers ex = Inr r \<and>
     (let sel = selectionsOf lc trips drivers ex
      in length sel = length trips \<and> assignments r = emitted trips sel \<and>
         (\<forall>i < length trips.
            (\<exists>c. eligible drivers ex trips sel i c) \<longrightarrow>
            (\<exists>d. sel ! i = Some d \<and> eligible drivers ex trips sel i d \<and>
                 (\<forall>c. eligible drivers ex trips sel i c \<longrightarrow>
                      ranksBefore lc (workloadBefore ex trips sel i) d c))))"
proof -
  let ?sel = "selectionsOf lc trips drivers ex"
  have len: "length ?sel = length trips" by (rule length_selectionsOf)
  have best: "\<exists>d. ?sel ! i = Some d \<and> eligible drivers ex trips ?sel i d \<and>
                 (\<forall>c. eligible drivers ex trips ?sel i c \<longrightarrow>
                      ranksBefore lc (workloadBefore ex trips ?sel i) d c)"
    if i: "i < length trips" and c0: "eligible drivers ex trips ?sel i c0" for i c0
  proof -
    from c0 have ne: "drivers \<noteq> []" by (auto simp: eligible_def)
    let ?byDay = "driversByDay lc drivers"
    from main_stateBefore [OF ne i, of lc ex] obtain sti where
      ch: "?sel ! i = chosenDriver lc ?byDay sti (trips ! i)"
      and cand: "\<forall>d. d \<in> set (candidatesOf ?byDay sti (trips ! i)) \<longleftrightarrow>
                   eligible drivers ex trips ?sel i d"
      and ld: "\<forall>d \<in> set drivers. loadOf (driverLoad sti) (d_id d) =
                   workloadBefore ex trips ?sel i (d_id d)"
      by blast
    from cand c0 obtain c cs where cs: "candidatesOf ?byDay sti (trips ! i) = c # cs"
      by (cases "candidatesOf ?byDay sti (trips ! i)") auto
    let ?d = "foldl (pickDriver lc (driverLoad sti)) c cs"
    from ch cs have sel_i: "?sel ! i = Some ?d" by (simp add: chosenDriver_def)
    have "?d \<in> set (c # cs)" by (rule foldl_pickDriver_mem)
    with cs cand have eld: "eligible drivers ex trips ?sel i ?d" by simp
    have "ranksBefore lc (workloadBefore ex trips ?sel i) ?d x"
      if x: "eligible drivers ex trips ?sel i x" for x
    proof -
      from x cand cs have "x \<in> set (c # cs)" by simp
      with foldl_pickDriver_min [OF assms, of c cs "driverLoad sti"]
      have "ranksBefore lc (loadOf (driverLoad sti)) ?d x" by blast
      moreover from x eld have "x \<in> set drivers" "?d \<in> set drivers"
        by (simp_all add: eligible_def)
      ultimately show ?thesis
        using ld ranksBefore_cong [of "loadOf (driverLoad sti)" ?d
            "workloadBefore ex trips ?sel i" x lc]
        by simp
    qed
    with sel_i eld show ?thesis by blast
  qed
  from assign_emitted [of lc trips drivers ex] obtain r where
    "assignTripsToDrivers lc trips drivers ex = Inr r" "assignments r = emitted trips ?sel"
    by blast
  with len best show ?thesis unfolding Let_def by blast
qed

theorem minimal_candidate_selected_witness:
  "(consistentComparator codeUnitCompare \<and>
   selectionsOf codeUnitCompare sampleTrips [bob, alice] sampleExisting ! 3 = Some alice \<and>
   eligible [bob, alice] sampleExisting sampleTrips
     (selectionsOf codeUnitCompare sampleTrips [bob, alice] sampleExisting) 3 bob \<and>
   workloadBefore sampleExisting sampleTrips
     (selectionsOf codeUnitCompare sampleTrips [bob, alice] sampleExisting) 3 (d_id bob) = 1 \<and>
   workloadBefore sampleExisting sampleTrips
     (selectionsOf codeUnitCompare sampleTrips [bob, alice] sampleExisting) 3 (d_id alice) = 3 \<and>
   ranksBefore codeUnitCompare
     (workloadBefore sampleExisting sampleTrips
        (selectionsOf codeUnitCompare sampleTrips [bob, alice] sampleExisting) 3) alice bob) \<and>
   (consistentComparator collationCompare \<and>
    selectionsOf collationCompare [tripAt ''t1'' ''T-1'' (Some ''08:00'')]
      [bobUpper, aliceLower] [] ! 0 = Some aliceLower \<and>
    eligible [bobUpper, aliceLower] [] [tripAt ''t1'' ''T-1'' (Some ''08:00'')]
      (selectionsOf collationCompare [tripAt ''t1'' ''T-1'' (Some ''08:00'')]
         [bobUpper, aliceLower] []) 0 bobUpper \<and>
    ranksBefore collationCompare
      (workloadBefore [] [tripAt ''t1'' ''T-1'' (Some ''08:00'')]
         (selectionsOf collationCompare [tripAt ''t1'' ''T-1'' (Some ''08:00'')]
            [bobUpper, aliceLower] []) 0) aliceLower bobUpper)"
proof -
  have first: "consistentComparator codeUnitCompare \<and>
   selectionsOf codeUnitCompare sampleTrips [bob, alice] sampleExisting ! 3 = Some alice \<and>
   eligible [bob, alice] sampleExisting sampleTrips
     (selectionsOf codeUnitCompare sampleTrips [bob, alice] sampleExisting) 3 bob \<and>
   workloadBefore sampleExisting sampleTrips
     (selectionsOf codeUnitCompare sampleTrips [bob, alice] sampleExisting) 3 (d_id bob) = 1 \<and>
   workloadBefore sampleExisting sampleTrips
     (selectionsOf codeUnitCompare sampleTrips [bob, alice] sampleExisting) 3 (d_id alice) = 3 \<and>
   ranksBefore codeUnitCompare
     (workloadBefore sampleExisting sampleTrips
        (selectionsOf codeUnitCompare sampleTrips [bob, alice] sampleExisting) 3) alice bob"
  proof -
    let ?sel = "selectionsOf codeUnitCompare sampleTrips [bob, alice] sampleExisting"
    have s3: "?sel ! 3 = Some alice" by (simp add: sample_selections)
    have el: "eligible [bob, alice] sampleExisting sampleTrips ?sel 3 bob"
      unfolding sample_selections by (rule sample_eligible_bob)
    have i: "3 < length sampleTrips" by (simp add: sampleTrips_def)
    from minimal_candidate_selected [OF codeUnitCompare_consistent,
        of sampleTrips "[bob, alice]" sampleExisting]
    have "\<forall>i < length sampleTrips.
            (\<exists>c. eligible [bob, alice] sampleExisting sampleTrips ?sel i c) \<longrightarrow>
            (\<exists>d. ?sel ! i = Some d \<and> eligible [bob, alice] sampleExisting sampleTrips ?sel i d \<and>
                 (\<forall>c. eligible [bob, alice] sampleExisting sampleTrips ?sel i c \<longrightarrow>
                      ranksBefore codeUnitCompare
                        (workloadBefore sampleExisting sampleTrips ?sel i) d c))"
      unfolding Let_def by blast
    with i el obtain d where "?sel ! 3 = Some d"
      "\<forall>c. eligible [bob, alice] sampleExisting sampleTrips ?sel 3 c \<longrightarrow>
           ranksBefore codeUnitCompare (workloadBefore sampleExisting sampleTrips ?sel 3) d c"
      by blast
    with s3 el have "ranksBefore codeUnitCompare
        (workloadBefore sampleExisting sampleTrips ?sel 3) alice bob" by simp
    with s3 el codeUnitCompare_consistent sample_workloads show ?thesis
      by (simp add: sample_selections)
  qed
  have second: "consistentComparator collationCompare \<and>
    selectionsOf collationCompare [tripAt ''t1'' ''T-1'' (Some ''08:00'')]
      [bobUpper, aliceLower] [] ! 0 = Some aliceLower \<and>
    eligible [bobUpper, aliceLower] [] [tripAt ''t1'' ''T-1'' (Some ''08:00'')]
      (selectionsOf collationCompare [tripAt ''t1'' ''T-1'' (Some ''08:00'')]
         [bobUpper, aliceLower] []) 0 bobUpper \<and>
    ranksBefore collationCompare
      (workloadBefore [] [tripAt ''t1'' ''T-1'' (Some ''08:00'')]
         (selectionsOf collationCompare [tripAt ''t1'' ''T-1'' (Some ''08:00'')]
            [bobUpper, aliceLower] []) 0) aliceLower bobUpper"
  proof -
    let ?trips = "[tripAt ''t1'' ''T-1'' (Some ''08:00'')]"
    let ?sel = "selectionsOf collationCompare ?trips [bobUpper, aliceLower] []"
    have s0: "?sel ! 0 = Some aliceLower" by (simp add: collation_selections)
    have el: "eligible [bobUpper, aliceLower] [] ?trips ?sel 0 bobUpper"
      unfolding collation_selections by (rule collation_eligible)
    from minimal_candidate_selected [OF collationCompare_consistent,
        of ?trips "[bobUpper, aliceLower]" "[]"]
    have "\<forall>i < length ?trips.
            (\<exists>c. eligible [bobUpper, aliceLower] [] ?trips ?sel i c) \<longrightarrow>
            (\<exists>d. ?sel ! i = Some d \<and> eligible [bobUpper, aliceLower] [] ?trips ?sel i d \<and>
                 (\<forall>c. eligible [bobUpper, aliceLower] [] ?trips ?sel i c \<longrightarrow>
                      ranksBefore collationCompare (workloadBefore [] ?trips ?sel i) d c))"
      unfolding Let_def by blast
    with el obtain d where "?sel ! 0 = Some d"
      "\<forall>c. eligible [bobUpper, aliceLower] [] ?trips ?sel 0 c \<longrightarrow>
           ranksBefore collationCompare (workloadBefore [] ?trips ?sel 0) d c"
      by auto
    with s0 el have "ranksBefore collationCompare (workloadBefore [] ?trips ?sel 0)
        aliceLower bobUpper" by simp
    with s0 el collationCompare_consistent show ?thesis by blast
  qed
  from first second show ?thesis by blast
qed

theorem lexicographic_name_counterexample:
  "assignTripsToDrivers collationCompare [tripAt ''t1'' ''T-1'' (Some ''08:00'')]
     [bobUpper, aliceLower] [] =
     Inr \<lparr>assignments = [\<lparr>a_tripId = ''t1'', a_driverId = ''d1'',
                            a_reasoning = ''Wednesday - alice (med priority)''\<rparr>],
          warnings = [], summary = ''Assigned 1 of 1 trips'',
          distribution = [\<lparr>driverId = ''d1'', driverName = ''alice'', tripCount = 1\<rparr>],
          stats = \<lparr>totalTrips = 1, assignedCount = 1, unassignedCount = 0\<rparr>\<rparr> \<and>
   eligible [bobUpper, aliceLower] [] [tripAt ''t1'' ''T-1'' (Some ''08:00'')] [Some aliceLower] 0
     bobUpper \<and>
   priorityOf bobUpper = priorityOf aliceLower \<and>
   workloadBefore [] [tripAt ''t1'' ''T-1'' (Some ''08:00'')] [Some aliceLower] 0 (d_id bobUpper) =
     workloadBefore [] [tripAt ''t1'' ''T-1'' (Some ''08:00'')] [Some aliceLower] 0 (d_id aliceLower) \<and>
   codeUnitCompare (d_name bobUpper) (d_name aliceLower) < 0"
  by code_simp

text \<open>
  C5 (as amended). When there is a driver, or no trip, the warning list has exactly one
  warning for each trip that got no driver, in the order of the trips, each naming its
  trip, and its length is \<open>unassignedCount\<close>. With trips and no driver the list is the
  single warning "No active drivers available" and \<open>unassignedCount\<close> is the number of
  trips.
\<close>

theorem warnings_per_unassigned:
  "\<exists>r. assignTripsToDrivers lc trips drivers ex = Inr r \<and>
     (if drivers = [] \<and> trips \<noteq> []
      then warnings r = [''No active drivers available''] \<and>
           unassignedCount (stats r) = int (length trips)
      else (let sel = selectionsOf lc trips drivers ex
            in length sel = length trips \<and> assignments r = emitted trips sel \<and>
               list_all2 warnsAbout (skipped trips sel) (warnings r)) \<and>
           int (length (warnings r)) = unassignedCount (stats r))"
proof (cases "trips = [] \<or> drivers = []")
  case True
  then show ?thesis
    by (auto simp: assignTripsToDrivers_def selectionsOf_def)
next
  case False
  let ?sel = "selectionsOf lc trips drivers ex"
  from False run_main [where lc = lc and ex = ex and trips = trips and drivers = drivers]
  obtain st where
    r: "assignLoop lc (driversByDay lc drivers) (initState drivers ex) trips = Inr st"
    and a: "st_assignments st = emitted trips ?sel"
    and w: "list_all2 warnsAbout (skipped trips ?sel) (st_warnings st)" by blast
  have len: "length ?sel = length trips" by (rule length_selectionsOf)
  from w have "length (st_warnings st) = length (skipped trips ?sel)"
    by (simp add: list_all2_lengthD)
  with length_emitted_skipped [OF len] a
  have "int (length (st_warnings st)) = int (length trips) - int (length (st_assignments st))"
    by simp
  with assign_unfold [OF _ _ r] False a w len show ?thesis by (simp add: Let_def)
qed

theorem warnings_per_unassigned_witness:
  "\<exists>r. assignTripsToDrivers codeUnitCompare sampleTrips [bob, alice] sampleExisting = Inr r \<and>
        list_all2 warnsAbout [tripAt ''t5'' ''T-5'' (Some ''00:20'')] (warnings r) \<and>
        int (length (warnings r)) = unassignedCount (stats r)"
proof -
  have sk: "skipped sampleTrips [Some alice, Some bob, Some alice, Some alice, None] =
              [tripAt ''t5'' ''T-5'' (Some ''00:20'')]"
    by (simp add: sampleTrips_def)
  from warnings_per_unassigned [of codeUnitCompare sampleTrips "[bob, alice]" sampleExisting]
  show ?thesis by (auto simp: Let_def sample_selections sk)
qed

theorem no_driver_warning_counterexample:
  "assignTripsToDrivers codeUnitCompare
     [tripAt ''t1'' ''T-1'' (Some ''08:00''), tripAt ''t2'' ''T-2'' None] [] [] =
     Inr \<lparr>assignments = [], warnings = [''No active drivers available''],
          summary = ''Assignment failed: No drivers'', distribution = [],
          stats = \<lparr>totalTrips = 2, assignedCount = 0, unassignedCount = 2\<rparr>\<rparr>"
  by code_simp

text \<open>
  C8 (as amended). For an input with a trip, the distribution has exactly one entry for
  each input driver whose combined count (pre-existing assignments of its id plus new
  assignments to its id) is at least one, with that count as \<open>tripCount\<close>, and is in
  descending order of \<open>tripCount\<close>; drivers with a combined count of zero have no
  entry. With no trip the distribution is empty.
\<close>

theorem distribution_counts:
  "\<exists>r. assignTripsToDrivers lc trips drivers ex = Inr r \<and>
     (if trips = [] then distribution r = []
      else mset (distribution r) =
             mset (filter (\<lambda>e. 1 \<le> tripCount e)
                     (map (\<lambda>d. \<lparr>driverId = d_id d, driverName = d_name d,
                                 tripCount = combinedCount ex (assignments r) (d_id d)\<rparr>) drivers)) \<and>
           sorted_wrt (\<lambda>a b. tripCount b \<le> tripCount a) (distribution r))"
proof (cases "trips = [] \<or> drivers = []")
  case True
  then show ?thesis
    by (auto simp: assignTripsToDrivers_def)
next
  case False
  from False run_main [where lc = lc and ex = ex and trips = trips and drivers = drivers]
  obtain st where
    r: "assignLoop lc (driversByDay lc drivers) (initState drivers ex) trips = Inr st"
    and l: "\<forall>d \<in> set drivers.
              loadOf (driverLoad st) (d_id d) = combinedCount ex (st_assignments st) (d_id d)"
    by blast
  from l have m: "map (\<lambda>d. \<lparr>driverId = d_id d, driverName = d_name d,
                           tripCount = loadOf (driverLoad st) (d_id d)\<rparr>) drivers =
                  map (\<lambda>d. \<lparr>driverId = d_id d, driverName = d_name d,
                           tripCount = combinedCount ex (st_assignments st) (d_id d)\<rparr>) drivers"
    by simp
  have f: "(\<lambda>e::driverDistribution. 0 < tripCount e) = (\<lambda>e. 1 \<le> tripCount e)" by auto
  have "mset (buildDistribution (driverLoad st) drivers) =
          mset (filter (\<lambda>e. 1 \<le> tripCount e)
                  (map (\<lambda>d. \<lparr>driverId = d_id d, driverName = d_name d,
                              tripCount = combinedCount ex (st_assignments st) (d_id d)\<rparr>) drivers))"
    unfolding buildDistribution_def mset_sortBy m f ..
  moreover have "sorted_wrt (\<lambda>a b. tripCount b \<le> tripCount a)
                   (buildDistribution (driverLoad st) drivers)"
    unfolding buildDistribution_def by (rule sortBy_desc)
  ultimately show ?thesis using assign_unfold [OF _ _ r] False by simp
qed

theorem distribution_counts_witness:
  "\<exists>r. assignTripsToDrivers codeUnitCompare sampleTrips [bob, alice] sampleExisting = Inr r \<and>
        mset (distribution r) =
          {#\<lparr>driverId = ''d2'', driverName = ''Bob'', tripCount = 1\<rparr>,
            \<lparr>driverId = ''d1'', driverName = ''Alice'', tripCount = 4\<rparr>#} \<and>
        sorted_wrt (\<lambda>a b. tripCount b \<le> tripCount a) (distribution r)"
proof -
  have ne: "sampleTrips \<noteq> []" by (simp add: sampleTrips_def)
  have cb: "combinedCount sampleExisting
      [\<lparr>a_tripId = ''t1'', a_driverId = ''d1'', a_reasoning = ''Wednesday - Alice (high priority)''\<rparr>,
       \<lparr>a_tripId = ''t2'', a_driverId = ''d2'', a_reasoning = ''Wednesday - Bob (med priority)''\<rparr>,
       \<lparr>a_tripId = ''t3'', a_driverId = ''d1'', a_reasoning = ''Wednesday - Alice (high priority)''\<rparr>,
       \<lparr>a_tripId = ''t4'', a_driverId = ''d1'', a_reasoning = ''Wednesday - Alice (high priority)''\<rparr>]
      (d_id bob) = 1" by code_simp
  have ca: "combinedCount sampleExisting
      [\<lparr>a_tripId = ''t1'', a_driverId = ''d1'', a_reasoning = ''Wednesday - Alice (high priority)''\<rparr>,
       \<lparr>a_tripId = ''t2'', a_driverId = ''d2'', a_reasoning = ''Wednesday - Bob (med priority)''\<rparr>,
       \<lparr>a_tripId = ''t3'', a_driverId = ''d1'', a_reasoning = ''Wednesday - Alice (high priority)''\<rparr>,
       \<lparr>a_tripId = ''t4'', a_driverId = ''d1'', a_reasoning = ''Wednesday - Alice (high priority)''\<rparr>]
      (d_id alice) = 4" by code_simp
  from distribution_counts [of codeUnitCompare sampleTrips "[bob, alice]" sampleExisting] ne
  show ?thesis
    by (simp add: sample_run cb ca) (simp add: bob_def alice_def)
qed

theorem empty_trips_distribution_counterexample:
  "assignTripsToDrivers codeUnitCompare [] [alice] [existingAt ''d1'' (Some ''03:00'')] =
     Inr \<lparr>assignments = [], warnings = [], summary = ''No trips to assign'', distribution = [],
          stats = \<lparr>totalTrips = 0, assignedCount = 0, unassignedCount = 0\<rparr>\<rparr> \<and>
   combinedCount [existingAt ''d1'' (Some ''03:00'')] [] (d_id alice) = 1"
  by code_simp



text \<open>
  C6. A planned time that is present but is no valid "HH:MM" time (hour 0 to 23, minute 0
  to 59) is to count as no time: midnight UTC of \<open>tripDate\<close> as conflict timestamp and
  the trip's own \<open>dayOfWeek\<close> as effective day. The function does not do so for every such
  string. \<^verbatim>\<open>parseInt\<close> reads "1x" as 1, so \<^verbatim>\<open>parseTime\<close> returns 01:30 for
  "1x:30" where its comment promises null for an invalid format: the timestamp of the
  Wednesday trip is 01:30 and not midnight, its effective day is Tuesday and not
  Wednesday, and Bob, who works on Wednesdays only, gets the trip when it has no time
  and does not get it when it has this one.
\<close>

theorem lenient_time_not_as_null:
  "parseTime (Some ''1x:30'') = Some \<lparr>hours = 1, minutes = 30\<rparr> \<and>
   tripTimestampOf (tripAt ''t1'' ''T-1'' (Some ''1x:30'')) = Some 1768354200000 \<and>
   tripTimestampOf (tripAt ''t1'' ''T-1'' None) = Some 1768348800000 \<and>
   effectiveDayOf (tripAt ''t1'' ''T-1'' (Some ''1x:30'')) = 2 \<and>
   effectiveDayOf (tripAt ''t1'' ''T-1'' None) = 3 \<and>
   assignTripsToDrivers codeUnitCompare [tripAt ''t1'' ''T-1'' (Some ''1x:30'')] [bobUpper] [] =
     Inr \<lparr>assignments = [],
          warnings = [''Trip T-1: No driver available on Tuesday (night shift into Wednesday)''],
          summary = ''Assigned 0 of 1 trips'', distribution = [],
          stats = \<lparr>totalTrips = 1, assignedCount = 0, unassignedCount = 1\<rparr>\<rparr> \<and>
   assignTripsToDrivers codeUnitCompare [tripAt ''t1'' ''T-1'' None] [bobUpper] [] =
     Inr \<lparr>assignments = [\<lparr>a_tripId = ''t1'', a_driverId = ''d2'',
                            a_reasoning = ''Wednesday - Bob (med priority)''\<rparr>],
          warnings = [], summary = ''Assigned 1 of 1 trips'',
          distribution = [\<lparr>driverId = ''d2'', driverName = ''Bob'', tripCount = 1\<rparr>],
          stats = \<lparr>totalTrips = 1, assignedCount = 1, unassignedCount = 0\<rparr>\<rparr>"
  by code_simp

end
